theory Spec2Isabelle
  imports Main "HOL-Library.Sublist"
begin

section \<open>Harmonic analysis engine: data model\<close>

text \<open>
  The engine of \<^verbatim>\<open>music_theory_engine.py\<close> and the tritone substitution of
  \<^verbatim>\<open>reharmonization_service.py\<close>. Strings are byte strings: every symbol the
  engine gives a meaning to is ASCII, and the non-ASCII signs of the source (the
  diminished mark, the arrow of the voice-leading message and the accented letters of the
  explanations) are written as their UTF-8 bytes. Python's \<^verbatim>\<open>ValueError\<close> is raised at two places, by \<^verbatim>\<open>parse_chord\<close>
  and by \<^verbatim>\<open>list.index\<close>; the model keeps the two apart by constructor.
\<close>

datatype ChordQuality =
    MAJOR | MINOR | DIMINISHED | AUGMENTED | DOMINANT | MAJOR7 | MINOR7
  | HALF_DIMINISHED | DIMINISHED7 | SUSPENDED4 | SUSPENDED2

fun quality_value :: "ChordQuality \<Rightarrow> string" where
  "quality_value MAJOR = ''major''"
| "quality_value MINOR = ''minor''"
| "quality_value DIMINISHED = ''diminished''"
| "quality_value AUGMENTED = ''augmented''"
| "quality_value DOMINANT = ''dominant7''"
| "quality_value MAJOR7 = ''major7''"
| "quality_value MINOR7 = ''minor7''"
| "quality_value HALF_DIMINISHED = ''half_diminished''"
| "quality_value DIMINISHED7 = ''diminished7''"
| "quality_value SUSPENDED4 = ''suspended4''"
| "quality_value SUSPENDED2 = ''suspended2''"

datatype Function =
    TONIC | SUBDOMINANT | DOMINANT_F | SECONDARY_DOMINANT | DIMINISHED_F | SUBSTITUTE

fun function_value :: "Function \<Rightarrow> string" where
  "function_value TONIC = ''T''"
| "function_value SUBDOMINANT = ''S''"
| "function_value DOMINANT_F = ''D''"
| "function_value SECONDARY_DOMINANT = ''V/x''"
| "function_value DIMINISHED_F = ''dim''"
| "function_value SUBSTITUTE = ''sub''"

text \<open>
  The dataclass \<^verbatim>\<open>Chord\<close>. The field \<^verbatim>\<open>function\<close> is called \<open>func\<close> here;
  \<^verbatim>\<open>None\<close> defaults are \<open>None\<close>, and \<^verbatim>\<open>__post_init__\<close> turns a missing
  extension list into the empty list.
\<close>

record Chord =
  root :: string
  quality :: ChordQuality
  extensions :: "string list"
  bass :: "string option"
  func :: "Function option"
  roman_numeral :: "string option"

text \<open>The constructor call \<^verbatim>\<open>Chord(root=r, quality=q)\<close> with every default.\<close>

definition mk_chord :: "string \<Rightarrow> ChordQuality \<Rightarrow> Chord" where
  "mk_chord r q =
     \<lparr> root = r, quality = q, extensions = [], bass = None, func = None,
       roman_numeral = None \<rparr>"

datatype error =
    InvalidChordSymbol string  \<comment> \<open>ValueError raised by parse_chord, with the symbol\<close>
  | NotInList string           \<comment> \<open>ValueError raised by list.index, with the value\<close>

definition chromatic_notes :: "string list" where
  "chromatic_notes =
     [''C'', ''C#'', ''D'', ''D#'', ''E'', ''F'', ''F#'', ''G'', ''G#'', ''A'', ''A#'', ''B'']"

definition degree_mark :: string where
  "degree_mark = [CHR 0xC2, CHR 0xB0]"

definition harmonic_functions :: "(string \<times> Function) list" where
  "harmonic_functions =
     [(''I'', TONIC), (''ii'', SUBDOMINANT), (''iii'', TONIC), (''IV'', SUBDOMINANT),
      (''V'', DOMINANT_F), (''vi'', TONIC), (''vii'' @ degree_mark, DOMINANT_F)]"

section \<open>String operations of the host language\<close>

text \<open>
  \<^verbatim>\<open>str.lower()\<close> and \<^verbatim>\<open>str.upper()\<close>: the 26 ASCII letters change case, every
  other byte stays.
\<close>

definition upper_letters :: string where
  "upper_letters = ''ABCDEFGHIJKLMNOPQRSTUVWXYZ''"

definition lower_letters :: string where
  "lower_letters = ''abcdefghijklmnopqrstuvwxyz''"

definition lower_char :: "char \<Rightarrow> char" where
  "lower_char c = (case map_of (zip upper_letters lower_letters) c of None \<Rightarrow> c | Some d \<Rightarrow> d)"

definition upper_char :: "char \<Rightarrow> char" where
  "upper_char c = (case map_of (zip lower_letters upper_letters) c of None \<Rightarrow> c | Some d \<Rightarrow> d)"

definition lower :: "string \<Rightarrow> string" where
  "lower s = map lower_char s"

definition upper :: "string \<Rightarrow> string" where
  "upper s = map upper_char s"

text \<open>
  \<^verbatim>\<open>str.strip()\<close>: the ASCII white space of Python's \<^verbatim>\<open>str.isspace\<close>. The
  model is one of ASCII chord symbols: on other input Python also strips the white space
  and changes the case of letters beyond ASCII.
\<close>

definition is_space :: "char \<Rightarrow> bool" where
  "is_space c =
     (c \<in> set [CHR 0x09, CHR 0x0A, CHR 0x0B, CHR 0x0C, CHR 0x0D,
                CHR 0x1C, CHR 0x1D, CHR 0x1E, CHR 0x1F, CHR '' ''])"

definition strip :: "string \<Rightarrow> string" where
  "strip s = rev (dropWhile is_space (rev (dropWhile is_space s)))"

text \<open>\<^verbatim>\<open>s.startswith(p)\<close> and the substring test \<^verbatim>\<open>p in s\<close>.\<close>

fun starts_with :: "string \<Rightarrow> string \<Rightarrow> bool" where
  "starts_with [] s = True"
| "starts_with (p # ps) [] = False"
| "starts_with (p # ps) (c # cs) = (p = c \<and> starts_with ps cs)"

fun str_in :: "string \<Rightarrow> string \<Rightarrow> bool" where
  "str_in p [] = (p = [])"
| "str_in p (c # cs) = (starts_with p (c # cs) \<or> str_in p cs)"

text \<open>\<^verbatim>\<open>roman_numeral.replace(degree, '')\<close>: every occurrence of the mark is dropped.\<close>

fun remove_degree :: "string \<Rightarrow> string" where
  "remove_degree (a # b # cs) =
     (if a = CHR 0xC2 \<and> b = CHR 0xB0 then remove_degree cs else a # remove_degree (b # cs))"
| "remove_degree cs = cs"

text \<open>\<^verbatim>\<open>xs.index(v)\<close>: the first position of the value, ValueError when absent.\<close>

fun index_from :: "string list \<Rightarrow> string \<Rightarrow> nat \<Rightarrow> nat option" where
  "index_from [] v i = None"
| "index_from (x # xs) v i = (if x = v then Some i else index_from xs v (Suc i))"

definition index_of :: "string list \<Rightarrow> string \<Rightarrow> error + nat" where
  "index_of xs v = (case index_from xs v 0 of None \<Rightarrow> Inl (NotInList v) | Some i \<Rightarrow> Inr i)"

text \<open>\<^verbatim>\<open>d.get(k, default)\<close> on a dictionary written as an association list.\<close>

definition dict_get :: "('k \<times> 'v) list \<Rightarrow> 'k \<Rightarrow> 'v \<Rightarrow> 'v" where
  "dict_get d k dflt = (case map_of d k of None \<Rightarrow> dflt | Some v \<Rightarrow> v)"

section \<open>Chord symbol parser\<close>

text \<open>
  The pattern \<^verbatim>\<open>^([A-G][#b]?)([^/]*?)(?:/([A-G][#b]?))?$\<close> applied to the stripped
  symbol. \<open>match_note\<close> is \<^verbatim>\<open>[A-G][#b]?\<close> with the greedy optional accidental;
  the lazy second group can only stop at the first slash or at the end, and what follows
  the slash must be exactly one note.
\<close>

definition is_note_letter :: "char \<Rightarrow> bool" where
  "is_note_letter c = (c \<in> set ''ABCDEFG'')"

definition is_accidental :: "char \<Rightarrow> bool" where
  "is_accidental c = (c = CHR ''#'' \<or> c = CHR ''b'')"

fun match_note :: "string \<Rightarrow> (string \<times> string) option" where
  "match_note [] = None"
| "match_note [c] = (if is_note_letter c then Some ([c], []) else None)"
| "match_note (c # a # cs) =
     (if is_note_letter c
      then (if is_accidental a then Some ([c, a], cs) else Some ([c], a # cs))
      else None)"

definition match_tail :: "string \<Rightarrow> (string \<times> string option) option" where
  "match_tail t =
     (let q = takeWhile (\<lambda>c. c \<noteq> CHR ''/'') t; r = dropWhile (\<lambda>c. c \<noteq> CHR ''/'') t
      in case r of
           [] \<Rightarrow> Some (q, None)
         | _ # b \<Rightarrow> (case match_note b of
                        Some (n, []) \<Rightarrow> Some (q, Some n)
                      | _ \<Rightarrow> None))"

definition chord_pattern_match :: "string \<Rightarrow> (string \<times> string \<times> string option) option" where
  "chord_pattern_match s =
     (case match_note s of
        None \<Rightarrow> None
      | Some (r, t) \<Rightarrow> (case match_tail t of
                           None \<Rightarrow> None
                         | Some (q, b) \<Rightarrow> Some (r, q, b)))"

definition determine_chord_quality :: "string \<Rightarrow> ChordQuality" where
  "determine_chord_quality quality_str =
     (let quality_str = lower quality_str in
      if str_in ''m7'' quality_str then MINOR7
      else if str_in ''maj7'' quality_str \<or> str_in ''M7'' quality_str then MAJOR7
      else if str_in ''7'' quality_str then DOMINANT
      else if str_in ''m'' quality_str then MINOR
      else if str_in ''dim'' quality_str then DIMINISHED
      else if str_in ''aug'' quality_str \<or> str_in ''+'' quality_str then AUGMENTED
      else if str_in ''sus4'' quality_str then SUSPENDED4
      else if str_in ''sus2'' quality_str then SUSPENDED2
      else MAJOR)"

text \<open>
  \<^verbatim>\<open>re.findall(r'(9|11|13|#11|b13)', quality_str)\<close>: a left-to-right scan, the
  alternatives tried in the order written, matches not overlapping.
\<close>

function parse_extensions :: "string \<Rightarrow> string list" where
  "parse_extensions s =
     (if s = [] then []
      else if starts_with ''9'' s then ''9'' # parse_extensions (drop 1 s)
      else if starts_with ''11'' s then ''11'' # parse_extensions (drop 2 s)
      else if starts_with ''13'' s then ''13'' # parse_extensions (drop 2 s)
      else if starts_with ''#11'' s then ''#11'' # parse_extensions (drop 3 s)
      else if starts_with ''b13'' s then ''b13'' # parse_extensions (drop 3 s)
      else parse_extensions (drop 1 s))"
  by pat_completeness auto
termination
  by (relation "measure length") auto

declare parse_extensions.simps [simp del]

definition parse_chord :: "string \<Rightarrow> error + Chord" where
  "parse_chord chord_symbol =
     (case chord_pattern_match (strip chord_symbol) of
        None \<Rightarrow> Inl (InvalidChordSymbol chord_symbol)
      | Some (r, quality_str, b) \<Rightarrow>
          Inr \<lparr> root = r,
                quality = determine_chord_quality quality_str,
                extensions = parse_extensions quality_str,
                bass = b,
                func = None,
                roman_numeral = None \<rparr>)"

section \<open>Harmonic function resolver\<close>

definition roman_map :: "(int \<times> string) list" where
  "roman_map =
     [(0, ''I''), (2, ''II''), (4, ''III''), (5, ''IV''), (7, ''V''), (9, ''VI''), (11, ''VII'')]"

text \<open>
  \<^verbatim>\<open>_get_roman_numeral\<close>: the key is looked up first, then the root; either
  \<^verbatim>\<open>index\<close> call raises when the name is not one of the twelve. Python's \<^verbatim>\<open>%\<close>
  with a positive modulus is never negative, like \<open>mod\<close> on \<open>int\<close>.
\<close>

definition get_roman_numeral :: "Chord \<Rightarrow> string \<Rightarrow> error + string" where
  "get_roman_numeral chord key =
     (case index_of chromatic_notes key of
        Inl e \<Rightarrow> Inl e
      | Inr key_index \<Rightarrow>
          (case index_of chromatic_notes (root chord) of
             Inl e \<Rightarrow> Inl e
           | Inr chord_index \<Rightarrow>
               (let interval = (int chord_index - int key_index) mod 12;
                    base_roman = dict_get roman_map interval ''bII''
                in Inr (if quality chord \<in> set [MINOR, MINOR7] then lower base_roman
                        else if quality chord = DIMINISHED then lower base_roman @ degree_mark
                        else base_roman))))"

definition determine_function :: "string \<Rightarrow> Function" where
  "determine_function rn =
     (let base_roman = upper (remove_degree rn)
      in dict_get harmonic_functions base_roman SUBSTITUTE)"

section \<open>Tension and scale advisor\<close>

definition tensions_map :: "(ChordQuality \<times> string list) list" where
  "tensions_map =
     [(MAJOR7, [''9'', ''11'', ''13'']),
      (MINOR7, [''9'', ''11'', ''13'']),
      (DOMINANT, [''9'', ''11'', ''13'', ''b13'', ''#11'']),
      (HALF_DIMINISHED, [''9'', ''11'', ''b13''])]"

definition get_available_tensions :: "Chord \<Rightarrow> string \<Rightarrow> string list" where
  "get_available_tensions chord key = dict_get tensions_map (quality chord) []"

definition scale_recommendations :: "(ChordQuality \<times> string list) list" where
  "scale_recommendations =
     [(MAJOR7, [''ionian'', ''lydian'']),
      (MINOR7, [''dorian'', ''aeolian'']),
      (DOMINANT, [''mixolydian'', ''altered'']),
      (HALF_DIMINISHED, [''locrian''])]"

definition recommend_scales :: "Chord \<Rightarrow> string \<Rightarrow> string list" where
  "recommend_scales chord key = dict_get scale_recommendations (quality chord) [''chromatic'']"

section \<open>Progression analyzer\<close>

record analysis_entry =
  entry_chord_symbol :: string
  entry_chord :: Chord
  entry_roman_numeral :: string
  entry_function :: string
  tensions_available :: "string list"
  scales_recommended :: "string list"

text \<open>
  The loop of \<^verbatim>\<open>analyze_chord_progression\<close>, with the list \<^verbatim>\<open>analysis\<close> as
  accumulator. An exception leaves the loop and the accumulated entries are lost.
\<close>

fun analyze_loop :: "string list \<Rightarrow> string \<Rightarrow> analysis_entry list \<Rightarrow> error + analysis_entry list" where
  "analyze_loop [] key analysis = Inr analysis"
| "analyze_loop (chord_symbol # rest) key analysis =
     (case parse_chord chord_symbol of
        Inl e \<Rightarrow> Inl e
      | Inr chord0 \<Rightarrow>
          (case get_roman_numeral chord0 key of
             Inl e \<Rightarrow> Inl e
           | Inr rn \<Rightarrow>
               (let fn = determine_function rn;
                    chord = chord0\<lparr> roman_numeral := Some rn, func := Some fn \<rparr>
                in analyze_loop rest key
                     (analysis @
                      [\<lparr> entry_chord_symbol = chord_symbol,
                          entry_chord = chord,
                          entry_roman_numeral = rn,
                          entry_function = function_value fn,
                          tensions_available = get_available_tensions chord key,
                          scales_recommended = recommend_scales chord key \<rparr>]))))"

definition analyze_chord_progression :: "string list \<Rightarrow> string \<Rightarrow> error + analysis_entry list" where
  "analyze_chord_progression chord_symbols key = analyze_loop chord_symbols key []"

section \<open>Substitution advisor\<close>

text \<open>
  \<^verbatim>\<open>suggest_chord_substitutions\<close> of the engine. The index \<open>(i + 6) mod 12\<close> is
  below the length of the alphabet, so the subscript cannot fail.
\<close>

definition suggest_chord_substitutions :: "Chord \<Rightarrow> string \<Rightarrow> error + string list" where
  "suggest_chord_substitutions chord key =
     (if quality chord = DOMINANT then
        (case index_of chromatic_notes (root chord) of
           Inl e \<Rightarrow> Inl e
         | Inr root_index \<Rightarrow>
             (let tritone_sub = chromatic_notes ! ((root_index + 6) mod 12)
              in Inr [tritone_sub @ ''7'']))
      else if func chord = Some TONIC then
        (if quality chord = MAJOR then Inr [root chord @ ''6'', root chord @ ''maj9'']
         else Inr [])
      else Inr [])"

text \<open>The reharmonization service: each candidate is a small dictionary.\<close>

record substitution =
  sub_chord :: string
  sub_type :: string
  explanation :: string
  volume_reference :: string

definition get_tritone_substitution :: "Chord \<Rightarrow> error + string" where
  "get_tritone_substitution chord =
     (case index_of chromatic_notes (root chord) of
        Inl e \<Rightarrow> Inl e
      | Inr root_index \<Rightarrow>
          (let tritone_index = (root_index + 6) mod 12;
               tritone_root = chromatic_notes ! tritone_index
           in Inr (tritone_root @ ''7'')))"

definition get_modal_borrowing_options :: "Chord \<Rightarrow> string \<Rightarrow> substitution list" where
  "get_modal_borrowing_options chord key =
     (if quality_value (quality chord) = ''major'' then
        [\<lparr> sub_chord = root chord @ ''m'',
            sub_type = ''modal_borrowing'',
            explanation = ''Empr'' @ [CHR 0xC3, CHR 0xA9] @ ''stimo do modo menor de '' @ key,
            volume_reference = ''Ian Guest Vol. 2 p.10-25'' \<rparr>]
      else [])"

definition get_secondary_dominant_options :: "Chord \<Rightarrow> string \<Rightarrow> error + substitution list" where
  "get_secondary_dominant_options chord key =
     (if quality_value (quality chord) \<in> set [''major'', ''minor''] then
        (case index_of chromatic_notes (root chord) of
           Inl e \<Rightarrow> Inl e
         | Inr i \<Rightarrow>
             (let dom_root_index = (i + 7) mod 12;
                  dom_root = chromatic_notes ! dom_root_index;
                  secondary_dom = dom_root @ ''7''
              in Inr [\<lparr> sub_chord = secondary_dom,
                         sub_type = ''secondary_dominant'',
                         explanation = ''Dominante secund'' @ [CHR 0xC3, CHR 0xA1]
                                       @ ''rio que resolve em '' @ root chord,
                         volume_reference = ''Ian Guest Vol. 2 p.26-45'' \<rparr>]))
      else Inr [])"

definition tritone_explanation :: string where
  "tritone_explanation =
     ''Substituto tritonal - mant'' @ [CHR 0xC3, CHR 0xA9] @ ''m tens'' @ [CHR 0xC3, CHR 0xA3]
     @ ''o dominante com movimento crom'' @ [CHR 0xC3, CHR 0xA1] @ ''tico''"

definition get_chord_substitutions ::
    "Chord \<Rightarrow> string \<Rightarrow> string \<Rightarrow> int \<Rightarrow> int \<Rightarrow> error + substitution list" where
  "get_chord_substitutions chord key style position total_chords =
     (case (if quality_value (quality chord) = ''dominant7'' then
              (case get_tritone_substitution chord of
                 Inl e \<Rightarrow> Inl e
               | Inr tritone_sub \<Rightarrow>
                   Inr [\<lparr> sub_chord = tritone_sub,
                          sub_type = ''tritone_substitution'',
                          explanation = tritone_explanation,
                          volume_reference = ''Ian Guest Vol. 2 p.46-60'' \<rparr>])
            else Inr []) of
        Inl e \<Rightarrow> Inl e
      | Inr subs1 \<Rightarrow>
          (let subs2 = subs1 @ get_modal_borrowing_options chord key in
           if position < total_chords - 1 then
             (case get_secondary_dominant_options chord key of
                Inl e \<Rightarrow> Inl e
              | Inr secondary_dom \<Rightarrow> Inr (subs2 @ secondary_dom))
           else Inr subs2))"

section \<open>Voice-leading checker\<close>

record voice_leading_report =
  is_valid :: bool
  issues :: "string list"
  suggestions :: "string list"

definition issue_message :: "string \<Rightarrow> string \<Rightarrow> string" where
  "issue_message a b =
     ''Movimento de fundamental muito amplo: '' @ a @ '' '' @ [CHR 0xE2, CHR 0x86, CHR 0x92]
     @ '' '' @ b"

definition suggestion_message :: string where
  "suggestion_message =
     ''Considere usar invers'' @ [CHR 0xC3, CHR 0xA3] @ ''o ou acorde de passagem''"

text \<open>
  The loop \<^verbatim>\<open>for i in range(len(progression) - 1)\<close>: it runs while \<open>i + 1\<close> is a
  position of the list, so both subscripts are in range.
\<close>

function voice_leading_loop ::
    "string list \<Rightarrow> nat \<Rightarrow> string list \<Rightarrow> string list \<Rightarrow> error + (string list \<times> string list)" where
  "voice_leading_loop progression i iss sug =
     (if i + 1 < length progression then
        (case parse_chord (progression ! i) of
           Inl e \<Rightarrow> Inl e
         | Inr current \<Rightarrow>
             (case parse_chord (progression ! (i + 1)) of
                Inl e \<Rightarrow> Inl e
              | Inr next_chord \<Rightarrow>
                  (case index_of chromatic_notes (root current) of
                     Inl e \<Rightarrow> Inl e
                   | Inr current_root \<Rightarrow>
                       (case index_of chromatic_notes (root next_chord) of
                          Inl e \<Rightarrow> Inl e
                        | Inr next_root \<Rightarrow>
                            (let interval = \<bar>int next_root - int current_root\<bar> in
                             if interval > 6 then
                               voice_leading_loop progression (i + 1)
                                 (iss @ [issue_message (progression ! i) (progression ! (i + 1))])
                                 (sug @ [suggestion_message])
                             else voice_leading_loop progression (i + 1) iss sug)))))
      else Inr (iss, sug))"
  by pat_completeness auto
termination
  by (relation "measure (\<lambda>(progression, i, iss, sug). length progression - i)") auto

declare voice_leading_loop.simps [simp del]

definition validate_voice_leading :: "string list \<Rightarrow> error + voice_leading_report" where
  "validate_voice_leading progression =
     (case voice_leading_loop progression 0 [] [] of
        Inl e \<Rightarrow> Inl e
      | Inr (iss, sug) \<Rightarrow>
          Inr \<lparr> is_valid = (length iss = 0), issues = iss, suggestions = sug \<rparr>)"

section \<open>Vocabulary of the properties\<close>

text \<open>
  A pitch-class name as the grammar writes it: a letter from A to G, alone or followed by
  one accidental. There are 21 of them; the chromatic alphabet holds 12.
\<close>

definition is_pitch_class_name :: "string \<Rightarrow> bool" where
  "is_pitch_class_name r =
     (case r of
        [l] \<Rightarrow> is_note_letter l
      | [l, a] \<Rightarrow> is_note_letter l \<and> is_accidental a
      | _ \<Rightarrow> False)"

text \<open>The quality strings the parser is specified for.\<close>

definition supported_quality_strings :: "string list" where
  "supported_quality_strings =
     [[], ''m'', ''m7'', ''maj7'', ''7'', ''dim'', ''aug'', ''+'', ''sus4'', ''sus2'']"

text \<open>
  A classification by ordered substring precedence: the first row of the table one of
  whose strings occurs in the suffix gives the quality. \<open>spec_precedence\<close> is the order
  of the specification, \<open>source_precedence\<close> the order of the tests in
  \<^verbatim>\<open>_determine_chord_quality\<close>.
\<close>

definition classify_by_precedence ::
    "(string list \<times> ChordQuality) list \<Rightarrow> ChordQuality \<Rightarrow> string \<Rightarrow> ChordQuality" where
  "classify_by_precedence table dflt s =
     (case find (\<lambda>(subs, q). list_ex (\<lambda>p. str_in p s) subs) table of
        None \<Rightarrow> dflt
      | Some (subs, q) \<Rightarrow> q)"

definition spec_precedence :: "(string list \<times> ChordQuality) list" where
  "spec_precedence =
     [([''m7''], MINOR7), ([''m''], MINOR), ([''maj7''], MAJOR7), ([''7''], DOMINANT),
      ([''dim''], DIMINISHED), ([''aug'', ''+''], AUGMENTED), ([''sus4''], SUSPENDED4),
      ([''sus2''], SUSPENDED2)]"

definition source_precedence :: "(string list \<times> ChordQuality) list" where
  "source_precedence =
     [([''m7''], MINOR7), ([''maj7''], MAJOR7), ([''7''], DOMINANT), ([''m''], MINOR),
      ([''dim''], DIMINISHED), ([''aug'', ''+''], AUGMENTED), ([''sus4''], SUSPENDED4),
      ([''sus2''], SUSPENDED2)]"

text \<open>
  The chord grammar, declaratively: a pitch-class name, a suffix without slash, and
  possibly a slash with a second pitch-class name.
\<close>

definition matches_chord_grammar :: "string \<Rightarrow> bool" where
  "matches_chord_grammar s =
     (\<exists>r q t. s = r @ q @ t \<and> is_pitch_class_name r \<and> CHR ''/'' \<notin> set q \<and>
        (t = [] \<or> (\<exists>n. t = CHR ''/'' # n \<and> is_pitch_class_name n)))"

text \<open>
  The chromatic index of the root of a symbol, when the symbol parses and its root is one of
  the twelve names; the raw distance of two such indices; and the test of the voice-leading
  check on a pair of symbols.
\<close>

definition symbol_root_index :: "string \<Rightarrow> nat option" where
  "symbol_root_index s =
     (case parse_chord s of
        Inl e \<Rightarrow> None
      | Inr c \<Rightarrow> (case index_of chromatic_notes (root c) of Inl e \<Rightarrow> None | Inr i \<Rightarrow> Some i))"

definition raw_root_distance :: "string \<Rightarrow> string \<Rightarrow> int option" where
  "raw_root_distance a b =
     (case (symbol_root_index a, symbol_root_index b) of
        (Some i, Some j) \<Rightarrow> Some \<bar>int j - int i\<bar>
      | _ \<Rightarrow> None)"

definition root_motion_flagged :: "string \<times> string \<Rightarrow> bool" where
  "root_motion_flagged p =
     (case raw_root_distance (fst p) (snd p) of None \<Rightarrow> False | Some d \<Rightarrow> d > 6)"

section \<open>Evaluation on concrete symbols\<close>

lemmas string_defs = lower_def lower_char_def upper_def upper_char_def strip_def is_space_def
  upper_letters_def lower_letters_def

lemmas parser_defs = parse_chord_def chord_pattern_match_def match_tail_def is_note_letter_def
  is_accidental_def determine_chord_quality_def parse_extensions.simps

lemmas resolver_defs = get_roman_numeral_def determine_function_def index_of_def dict_get_def
  chromatic_notes_def roman_map_def harmonic_functions_def degree_mark_def

lemma parse_Dm: "parse_chord ''Dm'' = Inr (mk_chord ''D'' MINOR)"
  by (simp add: parser_defs string_defs mk_chord_def)

lemma parse_Dm7: "parse_chord ''Dm7'' = Inr (mk_chord ''D'' MINOR7)"
  by (simp add: parser_defs string_defs mk_chord_def)

lemma parse_G7: "parse_chord ''G7'' = Inr (mk_chord ''G'' DOMINANT)"
  by (simp add: parser_defs string_defs mk_chord_def)

lemma parse_CM7: "parse_chord ''CM7'' = Inr (mk_chord ''C'' MINOR7)"
  by (simp add: parser_defs string_defs mk_chord_def)

lemma roman_Dm: "get_roman_numeral (mk_chord ''D'' MINOR) ''C'' = Inr ''ii''"
  by (simp add: resolver_defs string_defs mk_chord_def)

lemma roman_Dm7: "get_roman_numeral (mk_chord ''D'' MINOR7) ''C'' = Inr ''ii''"
  by (simp add: resolver_defs string_defs mk_chord_def)

lemma roman_G7: "get_roman_numeral (mk_chord ''G'' DOMINANT) ''C'' = Inr ''V''"
  by (simp add: resolver_defs string_defs mk_chord_def)

lemma roman_CM7: "get_roman_numeral (mk_chord ''C'' MINOR7) ''C'' = Inr ''i''"
  by (simp add: resolver_defs string_defs mk_chord_def)

lemma function_ii: "determine_function ''ii'' = SUBSTITUTE"
  by (simp add: resolver_defs string_defs)

lemma function_V: "determine_function ''V'' = DOMINANT_F"
  by (simp add: resolver_defs string_defs)

lemma function_i: "determine_function ''i'' = TONIC"
  by (simp add: resolver_defs string_defs)

lemma harmonic_functions_keys:
  "map_of harmonic_functions ''ii'' = Some SUBDOMINANT"
  "map_of harmonic_functions ''II'' = None"
  by (simp_all add: harmonic_functions_def)

section \<open>Strings and the parser on well-formed symbols\<close>

lemma starts_with_prefix: "starts_with p s \<longleftrightarrow> prefix p s"
  by (induction p s rule: starts_with.induct) simp_all

lemma str_in_sublist: "str_in p s \<longleftrightarrow> sublist p s"
  by (induction s) (auto simp: starts_with_prefix sublist_Cons_right)

lemma str_in_append: "str_in p (a @ p @ b)"
  by (simp add: str_in_sublist)

lemma str_in_iff: "str_in p s \<longleftrightarrow> (\<exists>a b. s = a @ p @ b)"
  by (simp add: str_in_sublist sublist_def)

lemma lower_char_not_upper: "lower_char c \<notin> set upper_letters"
  by (simp add: lower_char_def upper_letters_def lower_letters_def)

lemma lower_char_idem: "lower_char (lower_char c) = lower_char c"
  by (simp add: lower_char_def upper_letters_def lower_letters_def)

lemma lower_idem: "lower (lower s) = lower s"
  by (simp add: lower_def lower_char_idem)

lemma lower_append: "lower (a @ b) = lower a @ lower b"
  by (simp add: lower_def)

lemma no_upper_M_in_lower: "CHR ''M'' \<notin> set (lower s)"
proof
  assume "CHR ''M'' \<in> set (lower s)"
  then obtain c where "lower_char c = CHR ''M''" by (auto simp: lower_def)
  moreover have "CHR ''M'' \<in> set upper_letters" by (simp add: upper_letters_def)
  ultimately show False using lower_char_not_upper [of c] by simp
qed

lemma not_M7_in_lower: "\<not> str_in ''M7'' (lower s)"
proof
  assume "str_in ''M7'' (lower s)"
  then obtain a b where "lower s = a @ ''M7'' @ b" by (auto simp: str_in_iff)
  then have "CHR ''M'' \<in> set (lower s)" by simp
  then show False using no_upper_M_in_lower by blast
qed

lemma str_in_lower: "str_in p s \<Longrightarrow> str_in (lower p) (lower s)"
  by (metis str_in_iff lower_append)

lemma note_letter_not_space: "is_note_letter c \<Longrightarrow> \<not> is_space c"
  by (auto simp: is_note_letter_def is_space_def)

lemma accidental_not_space: "is_accidental c \<Longrightarrow> \<not> is_space c"
  by (auto simp: is_accidental_def is_space_def)

lemma strip_id: "s \<noteq> [] \<Longrightarrow> \<not> is_space (hd s) \<Longrightarrow> \<not> is_space (last s) \<Longrightarrow> strip s = s"
proof -
  assume a: "s \<noteq> []" "\<not> is_space (hd s)" "\<not> is_space (last s)"
  then have 1: "dropWhile is_space s = s" by (cases s) simp_all
  from a have "rev s \<noteq> []" "hd (rev s) = last s" by (simp_all add: hd_rev)
  with a have 2: "dropWhile is_space (rev s) = rev s" by (simp add: dropWhile_eq_self_iff)
  show ?thesis by (simp add: strip_def 1 2)
qed

lemma match_tail_no_slash: "CHR ''/'' \<notin> set q \<Longrightarrow> match_tail q = Some (q, None)"
proof -
  assume "CHR ''/'' \<notin> set q"
  then have t: "takeWhile (\<lambda>c. c \<noteq> CHR ''/'') q = q"
    and d: "dropWhile (\<lambda>c. c \<noteq> CHR ''/'') q = []"
    by (auto simp: takeWhile_eq_all_conv dropWhile_eq_Nil_conv)
  show ?thesis by (simp add: match_tail_def t d)
qed

lemma match_note_root:
  assumes "is_pitch_class_name r" "length r = 1 \<longrightarrow> q = [] \<or> \<not> is_accidental (hd q)"
  shows "match_note (r @ q) = Some (r, q)"
proof -
  from assms(1) consider l where "r = [l]" "is_note_letter l"
    | l a where "r = [l, a]" "is_note_letter l" "is_accidental a"
    by (auto simp: is_pitch_class_name_def split: list.splits)
  then show ?thesis
  proof cases
    case 1
    with assms(2) show ?thesis by (cases q) simp_all
  next
    case 2
    then show ?thesis by simp
  qed
qed

lemma parse_chord_root_suffix:
  assumes r: "is_pitch_class_name r"
    and slash: "CHR ''/'' \<notin> set q"
    and sp: "q = [] \<or> \<not> is_space (last q)"
    and acc: "length r = 1 \<longrightarrow> q = [] \<or> \<not> is_accidental (hd q)"
  shows "parse_chord (r @ q) =
           Inr \<lparr> root = r, quality = determine_chord_quality q,
                 extensions = parse_extensions q, bass = None, func = None,
                 roman_numeral = None \<rparr>"
proof -
  from r have ne: "r \<noteq> []" and h: "\<not> is_space (hd r)" and l: "\<not> is_space (last r)"
    by (auto simp: is_pitch_class_name_def note_letter_not_space accidental_not_space
        split: list.splits)
  from ne h l sp have "strip (r @ q) = r @ q"
    by (intro strip_id) (auto simp: last_append)
  moreover from r acc have "match_note (r @ q) = Some (r, q)" by (rule match_note_root)
  ultimately show ?thesis
    using slash by (simp add: parse_chord_def chord_pattern_match_def match_tail_no_slash)
qed

lemma supported_quality_ok:
  assumes "q \<in> set supported_quality_strings"
  shows "CHR ''/'' \<notin> set q" "q = [] \<or> \<not> is_space (last q)" "q = [] \<or> \<not> is_accidental (hd q)"
    "parse_extensions q = []"
proof -
  from assms have "q = [] \<or> q = ''m'' \<or> q = ''m7'' \<or> q = ''maj7'' \<or> q = ''7'' \<or> q = ''dim''
      \<or> q = ''aug'' \<or> q = ''+'' \<or> q = ''sus4'' \<or> q = ''sus2''"
    by (simp add: supported_quality_strings_def)
  then show "CHR ''/'' \<notin> set q" "q = [] \<or> \<not> is_space (last q)"
    "q = [] \<or> \<not> is_accidental (hd q)" "parse_extensions q = []"
    by (elim disjE; simp add: is_space_def is_accidental_def parse_extensions.simps)+
qed

lemma parse_Cm7: "parse_chord ''Cm7'' = Inr (mk_chord ''C'' MINOR7)"
  by (simp add: parser_defs string_defs mk_chord_def)

lemma determine_chord_quality_lower:
  "determine_chord_quality (lower s) = determine_chord_quality s"
  by (simp add: determine_chord_quality_def lower_idem)

lemma M7_suffix_ok:
  "CHR ''/'' \<notin> set ''M7''" "\<not> is_space (last ''M7'')" "\<not> is_accidental (hd ''M7'')"
  "parse_extensions ''M7'' = []" "determine_chord_quality ''M7'' = MINOR7"
  by (simp_all add: is_space_def is_accidental_def parse_extensions.simps
      determine_chord_quality_def string_defs)

section \<open>Harmonic function of a resolved chord\<close>

text \<open>
  C1. The function of a chord is looked up under the upper-cased numeral without the
  diminished mark, in the table of the engine. That table is keyed \<open>I, ii, iii, IV, V, vi\<close>
  and \<open>vii\<close> with the mark, so the upper-cased \<open>II\<close> is not a key of it: the chord
  \<open>Dm\<close> in the key of C gets the numeral \<open>ii\<close> and the function Substitute, although the
  table files \<open>ii\<close> under Subdominant.
\<close>

theorem resolve_Dm_in_C_C1:
  "parse_chord ''Dm'' = Inr (mk_chord ''D'' MINOR)
   \<and> get_roman_numeral (mk_chord ''D'' MINOR) ''C'' = Inr ''ii''
   \<and> determine_function ''ii'' = SUBSTITUTE
   \<and> map_of harmonic_functions ''ii'' = Some SUBDOMINANT
   \<and> map_of harmonic_functions ''II'' = None"
  by (simp only: parse_Dm roman_Dm function_ii harmonic_functions_keys simp_thms)

section \<open>The progression Dm7 G7 CM7 in C\<close>

text \<open>
  C2. The analysis of \<open>Dm7, G7, CM7\<close> in C succeeds with three entries; their functions
  are Substitute, Dominant and Tonic (\<open>sub, D, T\<close>), the first one by the table lookup
  of C1.
\<close>

theorem analyze_ii_V_I_C2:
  "map_sum id (map entry_function) (analyze_chord_progression [''Dm7'', ''G7'', ''CM7''] ''C'')
     = Inr [''sub'', ''D'', ''T'']
   \<and> map_sum id (map (func \<circ> entry_chord))
        (analyze_chord_progression [''Dm7'', ''G7'', ''CM7''] ''C'')
     = Inr [Some SUBSTITUTE, Some DOMINANT_F, Some TONIC]"
  by (simp add: analyze_chord_progression_def parse_Dm7 parse_G7 parse_CM7 roman_Dm7 roman_G7
      roman_CM7 function_ii function_V function_i Let_def)

section \<open>Tension and scale tables\<close>

text \<open>
  C9. The tensions and the scales of a chord depend on its quality alone. A quality that
  is no key of the tables (major, minor, diminished, augmented, diminished seventh and the
  two suspended ones) has no tension and the one scale \<open>chromatic\<close>; major seventh, minor
  seventh, dominant and half-diminished have the entries of the tables, in their order.
\<close>

theorem tension_scale_lookup_C9:
  "(quality c \<in> {MAJOR, MINOR, DIMINISHED, AUGMENTED, DIMINISHED7, SUSPENDED4, SUSPENDED2} \<longrightarrow>
      map_of tensions_map (quality c) = None \<and> map_of scale_recommendations (quality c) = None)
   \<and> (map_of tensions_map (quality c) = None \<longrightarrow> get_available_tensions c key = [])
   \<and> (map_of scale_recommendations (quality c) = None \<longrightarrow>
        recommend_scales c key = [''chromatic''])
   \<and> (quality c = MAJOR7 \<longrightarrow>
        get_available_tensions c key = [''9'', ''11'', ''13''] \<and>
        recommend_scales c key = [''ionian'', ''lydian''])
   \<and> (quality c = MINOR7 \<longrightarrow>
        get_available_tensions c key = [''9'', ''11'', ''13''] \<and>
        recommend_scales c key = [''dorian'', ''aeolian''])
   \<and> (quality c = DOMINANT \<longrightarrow>
        get_available_tensions c key = [''9'', ''11'', ''13'', ''b13'', ''#11''] \<and>
        recommend_scales c key = [''mixolydian'', ''altered''])
   \<and> (quality c = HALF_DIMINISHED \<longrightarrow>
        get_available_tensions c key = [''9'', ''11'', ''b13''] \<and>
        recommend_scales c key = [''locrian''])
   \<and> (quality c = quality c' \<longrightarrow>
        get_available_tensions c key = get_available_tensions c' key' \<and>
        recommend_scales c key = recommend_scales c' key')"
proof -
  have pure: "quality c = quality c' \<longrightarrow>
        get_available_tensions c key = get_available_tensions c' key' \<and>
        recommend_scales c key = recommend_scales c' key'"
    by (simp add: get_available_tensions_def recommend_scales_def)
  have tables: "quality c \<in> {MAJOR, MINOR, DIMINISHED, AUGMENTED, DIMINISHED7, SUSPENDED4, SUSPENDED2} \<longrightarrow>
      map_of tensions_map (quality c) = None \<and> map_of scale_recommendations (quality c) = None"
    by (cases "quality c") (simp_all add: tensions_map_def scale_recommendations_def)
  have absent: "(map_of tensions_map (quality c) = None \<longrightarrow> get_available_tensions c key = [])
   \<and> (map_of scale_recommendations (quality c) = None \<longrightarrow>
        recommend_scales c key = [''chromatic''])"
    by (simp add: get_available_tensions_def recommend_scales_def dict_get_def)
  have present: "(quality c = MAJOR7 \<longrightarrow>
        get_available_tensions c key = [''9'', ''11'', ''13''] \<and>
        recommend_scales c key = [''ionian'', ''lydian''])
   \<and> (quality c = MINOR7 \<longrightarrow>
        get_available_tensions c key = [''9'', ''11'', ''13''] \<and>
        recommend_scales c key = [''dorian'', ''aeolian''])
   \<and> (quality c = DOMINANT \<longrightarrow>
        get_available_tensions c key = [''9'', ''11'', ''13'', ''b13'', ''#11''] \<and>
        recommend_scales c key = [''mixolydian'', ''altered''])
   \<and> (quality c = HALF_DIMINISHED \<longrightarrow>
        get_available_tensions c key = [''9'', ''11'', ''b13''] \<and>
        recommend_scales c key = [''locrian''])"
    by (simp add: get_available_tensions_def recommend_scales_def tensions_map_def
        scale_recommendations_def dict_get_def)
  from tables absent present pure show ?thesis by blast
qed

theorem tension_scale_lookup_C9_witness:
  "get_available_tensions (mk_chord ''C'' MAJOR) ''C'' = []
   \<and> recommend_scales (mk_chord ''C'' MAJOR) ''C'' = [''chromatic'']
   \<and> get_available_tensions (mk_chord ''G'' DOMINANT) ''C''
       = [''9'', ''11'', ''13'', ''b13'', ''#11'']
   \<and> recommend_scales (mk_chord ''G'' DOMINANT) ''C'' = [''mixolydian'', ''altered'']
   \<and> get_available_tensions (mk_chord ''G'' DOMINANT) ''C''
       = get_available_tensions (mk_chord ''A'' DOMINANT) ''F''"
proof -
  have q: "quality (mk_chord ''C'' MAJOR) = MAJOR"
    "quality (mk_chord ''G'' DOMINANT) = DOMINANT"
    "quality (mk_chord ''A'' DOMINANT) = DOMINANT"
    by (simp_all add: mk_chord_def)
  from q tension_scale_lookup_C9 [where c = "mk_chord ''C'' MAJOR" and key = "''C''"
      and c' = "mk_chord ''C'' MAJOR" and key' = "''C''"]
  have a: "get_available_tensions (mk_chord ''C'' MAJOR) ''C'' = []
     \<and> recommend_scales (mk_chord ''C'' MAJOR) ''C'' = [''chromatic'']"
    by simp
  from q tension_scale_lookup_C9 [where c = "mk_chord ''G'' DOMINANT" and key = "''C''"
      and c' = "mk_chord ''A'' DOMINANT" and key' = "''F''"]
  have b: "get_available_tensions (mk_chord ''G'' DOMINANT) ''C''
       = [''9'', ''11'', ''13'', ''b13'', ''#11'']
   \<and> recommend_scales (mk_chord ''G'' DOMINANT) ''C'' = [''mixolydian'', ''altered'']
   \<and> get_available_tensions (mk_chord ''G'' DOMINANT) ''C''
       = get_available_tensions (mk_chord ''A'' DOMINANT) ''F''"
    by metis
  from a b show ?thesis by blast
qed

section \<open>Order of the quality tests\<close>

text \<open>
  C3, as the specification orders the tests (\<open>m7, m, maj7, 7, ...\<close>): the suffix
  \<open>maj7\<close> contains \<open>m\<close>, so that order answers minor, and the parser answers major
  seventh.
\<close>

theorem quality_precedence_C3_counterexample:
  "determine_chord_quality ''maj7'' = MAJOR7
   \<and> classify_by_precedence spec_precedence MAJOR (lower ''maj7'') = MINOR
   \<and> classify_by_precedence spec_precedence MAJOR ''maj7'' = MINOR"
  by (simp add: determine_chord_quality_def classify_by_precedence_def spec_precedence_def
      string_defs)

text \<open>
  C3, amended. The parser lower-cases the suffix and takes the first test that succeeds in
  the order \<open>m7\<close>, \<open>maj7\<close>, \<open>7\<close>, \<open>m\<close>, \<open>dim\<close>, \<open>aug\<close> or \<open>+\<close>, \<open>sus4\<close>,
  \<open>sus2\<close>, and answers major when none does; \<open>Cm7\<close> is a minor seventh chord.
\<close>

theorem quality_precedence_C3:
  "determine_chord_quality s = classify_by_precedence source_precedence MAJOR (lower s)
   \<and> parse_chord ''Cm7'' = Inr (mk_chord ''C'' MINOR7)"
  by (simp add: parse_Cm7 determine_chord_quality_def classify_by_precedence_def
      source_precedence_def not_M7_in_lower)

theorem quality_precedence_C3_witness:
  "determine_chord_quality ''m7'' = MINOR7 \<and> determine_chord_quality ''maj7'' = MAJOR7
   \<and> determine_chord_quality ''m9'' = MINOR"
  using quality_precedence_C3 [of "''m7''"] quality_precedence_C3 [of "''maj7''"]
    quality_precedence_C3 [of "''m9''"]
  by (simp add: classify_by_precedence_def source_precedence_def string_defs)

section \<open>Root of a parsed symbol\<close>

text \<open>
  C8. For every pitch-class name \<open>r\<close> and every supported quality string \<open>q\<close> the
  symbol \<open>r @ q\<close> parses, and the chord has the root \<open>r\<close> (and no bass).
\<close>

theorem parse_root_of_supported_symbol_C8:
  assumes "is_pitch_class_name r" and "q \<in> set supported_quality_strings"
  shows "\<exists>c. parse_chord (r @ q) = Inr c \<and> root c = r \<and> bass c = None
             \<and> quality c = determine_chord_quality q"
  using assms parse_chord_root_suffix [of r q] supported_quality_ok [of q] by simp

theorem parse_root_of_supported_symbol_C8_witness:
  "is_pitch_class_name ''F#'' \<and> ''sus4'' \<in> set supported_quality_strings
   \<and> (\<exists>c. parse_chord ''F#sus4'' = Inr c \<and> root c = ''F#'' \<and> bass c = None
             \<and> quality c = determine_chord_quality ''sus4'')"
proof -
  have a: "is_pitch_class_name ''F#''"
    by (simp add: is_pitch_class_name_def is_note_letter_def is_accidental_def)
  have b: "''sus4'' \<in> set supported_quality_strings"
    by (simp add: supported_quality_strings_def)
  from a b parse_root_of_supported_symbol_C8 [OF a b] show ?thesis by simp
qed

section \<open>Case of the quality suffix\<close>

text \<open>
  C10. The quality depends on the lower-cased suffix only. A suffix that contains
  \<open>M7\<close> is classified like one that contains \<open>m7\<close>, as a minor seventh; so for every
  pitch-class name \<open>r\<close> the symbol \<open>r @ M7\<close> parses to a minor seventh chord, not to a
  major seventh one.
\<close>

theorem quality_case_insensitive_C10:
  "(lower s = lower s' \<longrightarrow> determine_chord_quality s = determine_chord_quality s')
   \<and> (str_in ''M7'' s \<or> str_in ''m7'' s \<longrightarrow> determine_chord_quality s = MINOR7)
   \<and> determine_chord_quality (a @ ''M7'' @ b) = determine_chord_quality (a @ ''m7'' @ b)
   \<and> (is_pitch_class_name r \<longrightarrow>
         parse_chord (r @ ''M7'') = Inr (mk_chord r MINOR7) \<and> MINOR7 \<noteq> MAJOR7)"
proof -
  have 1: "lower s = lower s' \<longrightarrow> determine_chord_quality s = determine_chord_quality s'"
    by (simp add: determine_chord_quality_def)
  have m7: "lower ''M7'' = ''m7''" "lower ''m7'' = ''m7''"
    by (simp_all add: string_defs)
  have 2: "determine_chord_quality t = MINOR7" if "str_in ''M7'' t \<or> str_in ''m7'' t" for t
  proof -
    from that have "str_in ''m7'' (lower t)"
      using str_in_lower [of "''M7''" t] str_in_lower [of "''m7''" t] m7 by auto
    then show ?thesis by (simp add: determine_chord_quality_def)
  qed
  have 3: "determine_chord_quality (a @ ''M7'' @ b) = determine_chord_quality (a @ ''m7'' @ b)"
    using 2 [of "a @ ''M7'' @ b"] 2 [of "a @ ''m7'' @ b"]
      str_in_append [of "''M7''" a b] str_in_append [of "''m7''" a b]
    by simp
  have 4: "parse_chord (r @ ''M7'') = Inr (mk_chord r MINOR7)" if "is_pitch_class_name r"
    using parse_chord_root_suffix [of r "''M7''"] that M7_suffix_ok
    by (simp add: mk_chord_def)
  from 1 2 3 4 show ?thesis by simp
qed

theorem quality_case_insensitive_C10_witness:
  "lower ''M7'' = lower ''m7'' \<and> str_in ''M7'' ''M7'' \<and> is_pitch_class_name ''C''
   \<and> determine_chord_quality ''M7'' = determine_chord_quality ''m7''
   \<and> determine_chord_quality ''M7'' = MINOR7
   \<and> parse_chord ''CM7'' = Inr (mk_chord ''C'' MINOR7)"
proof -
  have a: "lower ''M7'' = lower ''m7''" by (simp add: string_defs)
  have b: "str_in ''M7'' ''M7''" by simp
  have c: "is_pitch_class_name ''C''"
    by (simp add: is_pitch_class_name_def is_note_letter_def)
  from a b c quality_case_insensitive_C10 [of "''M7''" "''m7''" "[]" "[]" "''C''"]
  show ?thesis by (simp add: mk_chord_def) metis
qed

section \<open>Positions in the chromatic alphabet\<close>

lemma index_from_Some:
  "index_from xs v k = Some i \<Longrightarrow> k \<le> i \<and> i - k < length xs \<and> xs ! (i - k) = v"
proof (induction xs arbitrary: k)
  case Nil
  then show ?case by simp
next
  case (Cons x xs)
  show ?case
  proof (cases "x = v")
    case True
    with Cons.prems show ?thesis by simp
  next
    case False
    with Cons.prems have "index_from xs v (Suc k) = Some i" by simp
    from Cons.IH [OF this] show ?thesis by (auto simp: Suc_diff_le nth_Cons')
  qed
qed

lemma index_from_None: "index_from xs v k = None \<longleftrightarrow> v \<notin> set xs"
  by (induction xs arbitrary: k) auto

lemma index_of_Inr_iff: "(\<exists>i. index_of xs v = Inr i) \<longleftrightarrow> v \<in> set xs"
  using index_from_None [of xs v 0]
  by (cases "index_from xs v 0") (auto simp: index_of_def)

lemma index_of_Inl: "index_of xs v = Inl e \<longleftrightarrow> v \<notin> set xs \<and> e = NotInList v"
  using index_from_None [of xs v 0]
  by (cases "index_from xs v 0") (auto simp: index_of_def)

lemma index_of_Inr: "index_of xs v = Inr i \<Longrightarrow> i < length xs \<and> xs ! i = v"
  using index_from_Some [of xs v 0 i]
  by (cases "index_from xs v 0") (auto simp: index_of_def)

lemma twelve_cases:
  "r < 12 \<Longrightarrow> r = 0 \<or> r = 1 \<or> r = 2 \<or> r = 3 \<or> r = 4 \<or> r = 5 \<or> r = 6 \<or> r = 7 \<or> r = 8
     \<or> r = 9 \<or> r = 10 \<or> r = (11::nat)"
  by arith

lemma index_of_chromatic_nth:
  "r < 12 \<Longrightarrow> index_of chromatic_notes (chromatic_notes ! r) = Inr r"
  by (drule twelve_cases) (elim disjE; simp add: index_of_def chromatic_notes_def)

lemma chromatic_nth_is_name: "r < 12 \<Longrightarrow> is_pitch_class_name (chromatic_notes ! r)"
  by (drule twelve_cases)
     (elim disjE; simp add: chromatic_notes_def is_pitch_class_name_def is_note_letter_def
        is_accidental_def)

lemma chromatic_notes_names: "\<forall>r \<in> set chromatic_notes. is_pitch_class_name r"
  by (simp add: chromatic_notes_def is_pitch_class_name_def is_note_letter_def is_accidental_def)

section \<open>The pattern match and the chord grammar\<close>

text \<open>
  The match is sound and complete for the grammar: it succeeds exactly on the strings of
  \<open>matches_chord_grammar\<close>, and the parser fails exactly when the stripped symbol is
  none of them.
\<close>

lemma match_note_Some:
  "match_note s = Some (n, rest) \<Longrightarrow> is_pitch_class_name n \<and> s = n @ rest"
  by (induction s rule: match_note.induct)
     (auto simp: is_pitch_class_name_def split: if_splits)

lemma match_note_name: "is_pitch_class_name n \<Longrightarrow> match_note n = Some (n, [])"
  using match_note_root [of n "[]"] by simp

lemma match_tail_Some:
  assumes "match_tail t = Some (q, b)"
  shows "CHR ''/'' \<notin> set q \<and>
         (case b of None \<Rightarrow> t = q | Some n \<Rightarrow> t = q @ CHR ''/'' # n \<and> is_pitch_class_name n)"
proof -
  let ?P = "\<lambda>c. c \<noteq> CHR ''/''"
  have q: "CHR ''/'' \<notin> set (takeWhile ?P t)"
    using set_takeWhileD [of "CHR ''/''" ?P t] by blast
  have split: "takeWhile ?P t @ dropWhile ?P t = t" by simp
  show ?thesis
  proof (cases "dropWhile ?P t")
    case Nil
    with split have "takeWhile ?P t = t" by simp
    with assms Nil q show ?thesis by (auto simp: match_tail_def)
  next
    case (Cons x rest)
    then have x: "x = CHR ''/''" using hd_dropWhile [of ?P t] by auto
    from assms Cons obtain n where n: "match_note rest = Some (n, [])" "b = Some n"
      "q = takeWhile ?P t"
      by (auto simp: match_tail_def split: option.splits prod.splits list.splits)
    from match_note_Some [OF n(1)] have nm: "is_pitch_class_name n" and rest: "rest = n"
      by simp_all
    from split Cons x rest n(3) have "t = q @ CHR ''/'' # n" by simp
    with n(2,3) q nm show ?thesis by simp
  qed
qed

lemma match_tail_slash:
  "CHR ''/'' \<notin> set q \<Longrightarrow> is_pitch_class_name n \<Longrightarrow>
     match_tail (q @ CHR ''/'' # n) = Some (q, Some n)"
proof -
  assume q: "CHR ''/'' \<notin> set q" and n: "is_pitch_class_name n"
  let ?P = "\<lambda>c. c \<noteq> CHR ''/''"
  from q have t: "takeWhile ?P (q @ CHR ''/'' # n) = q"
    and d: "dropWhile ?P (q @ CHR ''/'' # n) = CHR ''/'' # n"
    by (auto simp: takeWhile_append dropWhile_append)
  show ?thesis by (simp add: match_tail_def t d match_note_name [OF n])
qed

lemma chord_pattern_match_Some:
  assumes "chord_pattern_match s = Some (r, q, b)"
  shows "is_pitch_class_name r \<and> CHR ''/'' \<notin> set q \<and>
         (case b of None \<Rightarrow> s = r @ q | Some n \<Rightarrow> s = r @ q @ CHR ''/'' # n \<and> is_pitch_class_name n)"
proof -
  from assms obtain t where m: "match_note s = Some (r, t)" and t: "match_tail t = Some (q, b)"
    by (auto simp: chord_pattern_match_def split: option.splits prod.splits)
  from match_note_Some [OF m] match_tail_Some [OF t] show ?thesis
    by (cases b) auto
qed

lemma chord_pattern_match_grammar:
  "chord_pattern_match s \<noteq> None \<longleftrightarrow> matches_chord_grammar s"
proof
  assume "chord_pattern_match s \<noteq> None"
  then obtain r q b where "chord_pattern_match s = Some (r, q, b)" by auto
  from chord_pattern_match_Some [OF this]
  have r: "is_pitch_class_name r" and q: "CHR ''/'' \<notin> set q"
    and b: "case b of None \<Rightarrow> s = r @ q | Some n \<Rightarrow> s = r @ q @ CHR ''/'' # n \<and> is_pitch_class_name n"
    by simp_all
  show "matches_chord_grammar s"
  proof (cases b)
    case None
    with b have "s = r @ q @ []" by simp
    with r q show ?thesis unfolding matches_chord_grammar_def by blast
  next
    case (Some n)
    with b have "s = r @ q @ CHR ''/'' # n" "is_pitch_class_name n" by simp_all
    with r q show ?thesis unfolding matches_chord_grammar_def by blast
  qed
next
  assume "matches_chord_grammar s"
  then obtain r q t where s: "s = r @ q @ t" and r: "is_pitch_class_name r"
    and q: "CHR ''/'' \<notin> set q"
    and t: "t = [] \<or> (\<exists>n. t = CHR ''/'' # n \<and> is_pitch_class_name n)"
    unfolding matches_chord_grammar_def by blast
  from t q have tail: "\<And>q'. CHR ''/'' \<notin> set q' \<Longrightarrow> match_tail (q' @ t) \<noteq> None"
    by (auto simp: match_tail_no_slash match_tail_slash)
  show "chord_pattern_match s \<noteq> None"
  proof (cases "length r = 1 \<and> q \<noteq> [] \<and> is_accidental (hd q)")
    case False
    with r have "match_note (r @ (q @ t)) = Some (r, q @ t)"
    proof -
      from False r t have "length r = 1 \<longrightarrow> q @ t = [] \<or> \<not> is_accidental (hd (q @ t))"
        by (cases q) (auto simp: is_accidental_def)
      with r show ?thesis by (rule match_note_root)
    qed
    with tail [OF q] s show ?thesis
      by (auto simp: chord_pattern_match_def split: option.splits)
  next
    case True
    then obtain l a q' where r': "r = [l]" and q': "q = a # q'" and a: "is_accidental a"
      by (cases r; cases q) auto
    from r r' a have nm: "is_pitch_class_name [l, a]"
      by (simp add: is_pitch_class_name_def)
    have "match_note ([l, a] @ (q' @ t)) = Some ([l, a], q' @ t)"
      by (rule match_note_root [OF nm]) simp
    moreover from q q' have "CHR ''/'' \<notin> set q'" by simp
    ultimately show ?thesis using tail [of q'] s r' q'
      by (auto simp: chord_pattern_match_def split: option.splits)
  qed
qed

lemma parse_chord_Inl:
  "parse_chord s = Inl e \<longleftrightarrow> chord_pattern_match (strip s) = None \<and> e = InvalidChordSymbol s"
  by (auto simp: parse_chord_def split: option.splits)

lemma parse_chord_fails_iff_no_match:
  "(\<exists>e. parse_chord s = Inl e) \<longleftrightarrow> \<not> matches_chord_grammar (strip s)"
proof -
  have "(\<exists>e. parse_chord s = Inl e) \<longleftrightarrow> chord_pattern_match (strip s) = None"
    by (simp add: parse_chord_Inl)
  with chord_pattern_match_grammar [of "strip s"] show ?thesis by auto
qed

lemma parse_chord_names:
  assumes "parse_chord s = Inr c"
  shows "is_pitch_class_name (root c) \<and> (\<forall>b. bass c = Some b \<longrightarrow> is_pitch_class_name b)"
proof -
  from assms obtain r q b where m: "chord_pattern_match (strip s) = Some (r, q, b)"
    and c: "root c = r" "bass c = b"
    by (auto simp: parse_chord_def split: option.splits)
  from chord_pattern_match_Some [OF m] c show ?thesis by (cases b) auto
qed

section \<open>Tritone substitution\<close>

lemma seven_suffix_ok:
  "CHR ''/'' \<notin> set ''7''" "\<not> is_space (last ''7'')" "\<not> is_accidental (hd ''7'')"
  "parse_extensions ''7'' = []" "determine_chord_quality ''7'' = DOMINANT"
  by (simp_all add: is_space_def is_accidental_def parse_extensions.simps
      determine_chord_quality_def string_defs)

lemma parse_dominant_symbol:
  "is_pitch_class_name r \<Longrightarrow> parse_chord (r @ ''7'') = Inr (mk_chord r DOMINANT)"
  using parse_chord_root_suffix [of r "''7''"] seven_suffix_ok by (simp add: mk_chord_def)

lemma tritone_twice: "r < 12 \<Longrightarrow> ((r + 6) mod 12 + 6) mod 12 = (r::nat)"
  by (drule twelve_cases) (elim disjE; simp)

lemma tritone_of_index:
  "r < 12 \<Longrightarrow> root c = chromatic_notes ! r \<Longrightarrow>
     get_tritone_substitution c = Inr (chromatic_notes ! ((r + 6) mod 12) @ ''7'')"
  by (simp add: get_tritone_substitution_def index_of_chromatic_nth)

lemma quality_value_dominant: "quality_value q = ''dominant7'' \<longleftrightarrow> q = DOMINANT"
  by (cases q) simp_all

lemma quality_value_major: "quality_value q = ''major'' \<longleftrightarrow> q = MAJOR"
  by (cases q) simp_all

lemma quality_value_minor: "quality_value q = ''minor'' \<longleftrightarrow> q = MINOR"
  by (cases q) simp_all

lemma modal_borrowing_type:
  "e \<in> set (get_modal_borrowing_options c key) \<Longrightarrow> sub_type e = ''modal_borrowing''"
  by (auto simp: get_modal_borrowing_options_def split: if_splits)

lemma secondary_dominant_type:
  "get_secondary_dominant_options c key = Inr subs \<Longrightarrow> e \<in> set subs \<Longrightarrow>
     sub_type e = ''secondary_dominant''"
  by (auto simp: get_secondary_dominant_options_def Let_def split: if_splits sum.splits)

lemma modal_borrowing_not_tritone:
  "\<forall>e \<in> set (get_modal_borrowing_options c key). sub_type e \<noteq> ''tritone_substitution''"
  using modal_borrowing_type [of _ c key] by fastforce

lemma secondary_dominant_not_tritone:
  "get_secondary_dominant_options c key = Inr xs \<Longrightarrow>
     \<forall>e \<in> set xs. sub_type e \<noteq> ''tritone_substitution''"
  using secondary_dominant_type [of c key xs] by fastforce

lemma chord_substitutions_shape:
  assumes "get_chord_substitutions c key style pos total_chords = Inr subs"
  shows "\<exists>rest. (\<forall>e \<in> set rest. sub_type e \<noteq> ''tritone_substitution'')
           \<and> (if quality c = DOMINANT
                then \<exists>t. get_tritone_substitution c = Inr t \<and>
                       subs = \<lparr> sub_chord = t, sub_type = ''tritone_substitution'',
                                 explanation = tritone_explanation,
                                 volume_reference = ''Ian Guest Vol. 2 p.46-60'' \<rparr> # rest
                else subs = rest)"
proof -
  obtain sd where sd: "sd = [] \<or> get_secondary_dominant_options c key = Inr sd"
    and subs: "if quality c = DOMINANT
                then \<exists>t. get_tritone_substitution c = Inr t \<and>
                       subs = \<lparr> sub_chord = t, sub_type = ''tritone_substitution'',
                                 explanation = tritone_explanation,
                                 volume_reference = ''Ian Guest Vol. 2 p.46-60'' \<rparr>
                              # (get_modal_borrowing_options c key @ sd)
                else subs = get_modal_borrowing_options c key @ sd"
    using assms
    by (cases "pos < total_chords - 1")
       (auto simp: get_chord_substitutions_def quality_value_dominant Let_def
          split: if_splits sum.splits)
  from sd have "\<forall>e \<in> set sd. sub_type e \<noteq> ''tritone_substitution''"
    using secondary_dominant_not_tritone [of c key sd] by auto
  with modal_borrowing_not_tritone [of c key]
  have "\<forall>e \<in> set (get_modal_borrowing_options c key @ sd).
          sub_type e \<noteq> ''tritone_substitution''"
    by auto
  with subs show ?thesis by (intro exI [of _ "get_modal_borrowing_options c key @ sd"]) simp
qed

lemma chord_substitutions_tritone:
  assumes "get_chord_substitutions c key style pos total_chords = Inr subs"
  shows "((\<exists>e \<in> set subs. sub_type e = ''tritone_substitution'') \<longleftrightarrow> quality c = DOMINANT)
       \<and> (\<forall>e \<in> set subs. sub_type e = ''tritone_substitution'' \<longrightarrow>
            get_tritone_substitution c = Inr (sub_chord e))"
  using chord_substitutions_shape [OF assms] by (auto split: if_splits)

text \<open>
  C7. Among the candidates of the reharmonization service, one of type
  \<open>tritone_substitution\<close> occurs exactly for a chord of dominant quality, and the engine
  offers the tritone candidate in its dominant branch only. For a root at position \<open>r\<close>
  of the chromatic alphabet the candidate is the name at position \<open>(r + 6) mod 12\<close>
  followed by \<open>7\<close>; that symbol parses to a dominant chord on that root, and its own
  tritone substitution is the original root again, since \<open>((r + 6) mod 12 + 6) mod 12 = r\<close>.
\<close>

theorem tritone_substitution_C7:
  "(get_chord_substitutions c key style pos total_chords = Inr subs \<longrightarrow>
      ((\<exists>e \<in> set subs. sub_type e = ''tritone_substitution'') \<longleftrightarrow> quality c = DOMINANT)
      \<and> (\<forall>e \<in> set subs. sub_type e = ''tritone_substitution'' \<longrightarrow>
            get_tritone_substitution c = Inr (sub_chord e)))
   \<and> (quality c = DOMINANT \<longrightarrow>
        suggest_chord_substitutions c key = map_sum id (\<lambda>t. [t]) (get_tritone_substitution c))
   \<and> (quality c \<noteq> DOMINANT \<longrightarrow>
        suggest_chord_substitutions c key =
          Inr (if func c = Some TONIC \<and> quality c = MAJOR
               then [root c @ ''6'', root c @ ''maj9''] else []))
   \<and> (r < 12 \<and> root c = chromatic_notes ! r \<longrightarrow>
        get_tritone_substitution c = Inr (chromatic_notes ! ((r + 6) mod 12) @ ''7'')
        \<and> parse_chord (chromatic_notes ! ((r + 6) mod 12) @ ''7'')
            = Inr (mk_chord (chromatic_notes ! ((r + 6) mod 12)) DOMINANT)
        \<and> get_tritone_substitution (mk_chord (chromatic_notes ! ((r + 6) mod 12)) DOMINANT)
            = Inr (chromatic_notes ! r @ ''7'')
        \<and> ((r + 6) mod 12 + 6) mod 12 = r)"
proof -
  have 1: "suggest_chord_substitutions c key = map_sum id (\<lambda>t. [t]) (get_tritone_substitution c)"
    if "quality c = DOMINANT"
    using that
    by (simp add: suggest_chord_substitutions_def get_tritone_substitution_def Let_def
        split: sum.splits)
  have 2: "suggest_chord_substitutions c key =
          Inr (if func c = Some TONIC \<and> quality c = MAJOR
               then [root c @ ''6'', root c @ ''maj9''] else [])"
    if "quality c \<noteq> DOMINANT"
    using that by (simp add: suggest_chord_substitutions_def)
  have 3: "get_tritone_substitution c = Inr (chromatic_notes ! ((r + 6) mod 12) @ ''7'')
        \<and> parse_chord (chromatic_notes ! ((r + 6) mod 12) @ ''7'')
            = Inr (mk_chord (chromatic_notes ! ((r + 6) mod 12)) DOMINANT)
        \<and> get_tritone_substitution (mk_chord (chromatic_notes ! ((r + 6) mod 12)) DOMINANT)
            = Inr (chromatic_notes ! r @ ''7'')
        \<and> ((r + 6) mod 12 + 6) mod 12 = r"
    if r: "r < 12" and c: "root c = chromatic_notes ! r"
  proof -
    have m: "(r + 6) mod 12 < 12" by simp
    have "root (mk_chord (chromatic_notes ! ((r + 6) mod 12)) DOMINANT)
            = chromatic_notes ! ((r + 6) mod 12)"
      by (simp add: mk_chord_def)
    from tritone_of_index [OF m this] tritone_twice [OF r]
    have "get_tritone_substitution (mk_chord (chromatic_notes ! ((r + 6) mod 12)) DOMINANT)
            = Inr (chromatic_notes ! r @ ''7'')"
      by simp
    with tritone_of_index [OF r c] parse_dominant_symbol [OF chromatic_nth_is_name [OF m]]
      tritone_twice [OF r]
    show ?thesis by simp
  qed
  from 1 2 3 chord_substitutions_tritone [of c key style pos total_chords subs]
  show ?thesis by blast
qed

theorem tritone_substitution_C7_witness:
  "get_chord_substitutions (mk_chord ''G'' DOMINANT) ''C'' ''jazz'' 1 3
     = Inr [\<lparr> sub_chord = ''C#7'', sub_type = ''tritone_substitution'',
               explanation = tritone_explanation,
               volume_reference = ''Ian Guest Vol. 2 p.46-60'' \<rparr>]
   \<and> suggest_chord_substitutions (mk_chord ''G'' DOMINANT) ''C'' = Inr [''C#7'']
   \<and> parse_chord ''C#7'' = Inr (mk_chord ''C#'' DOMINANT)
   \<and> get_tritone_substitution (mk_chord ''C#'' DOMINANT) = Inr ''G7''"
proof -
  have subs: "get_chord_substitutions (mk_chord ''G'' DOMINANT) ''C'' ''jazz'' 1 3
     = Inr [\<lparr> sub_chord = ''C#7'', sub_type = ''tritone_substitution'',
               explanation = tritone_explanation,
               volume_reference = ''Ian Guest Vol. 2 p.46-60'' \<rparr>]"
    by (simp add: get_chord_substitutions_def get_tritone_substitution_def
        get_modal_borrowing_options_def get_secondary_dominant_options_def mk_chord_def
        index_of_def chromatic_notes_def)
  have q: "quality (mk_chord ''G'' DOMINANT) = DOMINANT"
    and r: "(7::nat) < 12 \<and> root (mk_chord ''G'' DOMINANT) = chromatic_notes ! 7"
    and n: "chromatic_notes ! ((7 + 6) mod 12) = ''C#''" "chromatic_notes ! 7 = ''G''"
    by (simp_all add: mk_chord_def chromatic_notes_def)
  from tritone_substitution_C7 [where c = "mk_chord ''G'' DOMINANT" and key = "''C''"
      and style = "''jazz''" and pos = 1 and total_chords = 3 and r = 7
      and subs = "[\<lparr> sub_chord = ''C#7'', sub_type = ''tritone_substitution'',
               explanation = tritone_explanation,
               volume_reference = ''Ian Guest Vol. 2 p.46-60'' \<rparr>]"] subs q r n
  show ?thesis by simp
qed

section \<open>Voice-leading check\<close>

lemma symbol_root_index_Some:
  "symbol_root_index s = Some i \<longleftrightarrow>
     (\<exists>c. parse_chord s = Inr c \<and> index_of chromatic_notes (root c) = Inr i)"
  by (auto simp: symbol_root_index_def split: sum.splits)

lemma symbol_root_index_iff:
  "symbol_root_index s \<noteq> None \<longleftrightarrow>
     (\<exists>c. parse_chord s = Inr c \<and> root c \<in> set chromatic_notes)"
proof -
  have "symbol_root_index s \<noteq> None \<longleftrightarrow> (\<exists>i. symbol_root_index s = Some i)" by auto
  also have "\<dots> \<longleftrightarrow> (\<exists>c. parse_chord s = Inr c \<and> (\<exists>i. index_of chromatic_notes (root c) = Inr i))"
    by (auto simp: symbol_root_index_Some)
  finally show ?thesis by (simp add: index_of_Inr_iff)
qed

lemma voice_leading_loop_ok:
  assumes "\<forall>s \<in> set progression. symbol_root_index s \<noteq> None"
  shows "voice_leading_loop progression i iss sug =
           Inr (iss @ map (\<lambda>(a, b). issue_message a b)
                        (filter root_motion_flagged (zip (drop i progression) (drop (i + 1) progression))),
                sug @ replicate
                        (length (filter root_motion_flagged
                                   (zip (drop i progression) (drop (i + 1) progression))))
                        suggestion_message)"
  using assms
proof (induction progression i iss sug rule: voice_leading_loop.induct)
  case (1 progression i iss sug)
  show ?case
  proof (cases "i + 1 < length progression")
    case False
    then have "drop (i + 1) progression = []" by simp
    with False show ?thesis by (simp add: voice_leading_loop.simps [of progression i])
  next
    case True
    let ?a = "progression ! i" and ?b = "progression ! (i + 1)"
    from True have mem: "?a \<in> set progression" "?b \<in> set progression" by simp_all
    with "1.prems" have "symbol_root_index ?a \<noteq> None" "symbol_root_index ?b \<noteq> None"
      by blast+
    then obtain ia ib where ia: "symbol_root_index ?a = Some ia"
      and ib: "symbol_root_index ?b = Some ib"
      by blast
    then obtain ca cb where ca: "parse_chord ?a = Inr ca" "index_of chromatic_notes (root ca) = Inr ia"
      and cb: "parse_chord ?b = Inr cb" "index_of chromatic_notes (root cb) = Inr ib"
      by (auto simp: symbol_root_index_Some)
    from True have da: "drop i progression = ?a # drop (i + 1) progression"
      by (simp add: Cons_nth_drop_Suc)
    from True have db: "drop (i + 1) progression = ?b # drop (i + 1 + 1) progression"
      using Cons_nth_drop_Suc [of "i + 1" progression] by simp
    have z: "zip (drop i progression) (drop (i + 1) progression)
               = (?a, ?b) # zip (drop (i + 1) progression) (drop (i + 1 + 1) progression)"
      by (subst da, subst (2) db) simp
    have fl: "root_motion_flagged (?a, ?b) \<longleftrightarrow> \<bar>int ib - int ia\<bar> > 6"
      using ia ib by (simp add: root_motion_flagged_def raw_root_distance_def)
    show ?thesis
    proof (cases "\<bar>int ib - int ia\<bar> > 6")
      case big: True
      from "1.IH"(1) [OF True ca(1) cb(1) ca(2) cb(2) refl big "1.prems"]
      show ?thesis
        using True big fl ca cb z
        by (subst voice_leading_loop.simps) (simp add: replicate_app_Cons_same)
    next
      case small: False
      from "1.IH"(2) [OF True ca(1) cb(1) ca(2) cb(2) refl small "1.prems"]
      show ?thesis
        using True small fl ca cb z
        by (subst voice_leading_loop.simps) simp
    qed
  qed
qed

lemma validate_C_Fsharp:
  "validate_voice_leading [''C'', ''F#''] = Inr \<lparr> is_valid = True, issues = [], suggestions = [] \<rparr>"
  by (simp add: validate_voice_leading_def voice_leading_loop.simps parser_defs string_defs
      index_of_def chromatic_notes_def)

lemma validate_C_Gflat: "validate_voice_leading [''C'', ''Gb''] = Inl (NotInList ''Gb'')"
  by (simp add: validate_voice_leading_def voice_leading_loop.simps parser_defs string_defs
      index_of_def chromatic_notes_def)

lemma distance_C_Fsharp: "raw_root_distance ''C'' ''F#'' = Some 6"
  by (simp add: raw_root_distance_def symbol_root_index_def parser_defs string_defs
      index_of_def chromatic_notes_def)

lemma parse_Gflat: "parse_chord ''Gb'' = Inr (mk_chord ''Gb'' MAJOR)"
  by (simp add: parser_defs string_defs mk_chord_def)

lemma symbol_root_index_examples:
  "symbol_root_index ''C'' = Some 0" "symbol_root_index ''G#'' = Some 8"
  "symbol_root_index ''Am'' = Some 9"
  by (simp_all add: symbol_root_index_def parser_defs string_defs index_of_def
      chromatic_notes_def)

lemma parse_Fsharp: "parse_chord ''F#'' = Inr (mk_chord ''F#'' MAJOR)"
  by (simp add: parser_defs string_defs mk_chord_def)

lemma parse_C_major: "parse_chord ''C'' = Inr (mk_chord ''C'' MAJOR)"
  by (simp add: parser_defs string_defs mk_chord_def)

text \<open>
  C6. The check is to flag an adjacent pair exactly when the raw distance of the root indices
  exceeds 6, so that \<open>C, Gb\<close> with distance 6 is valid. Both symbols parse; the check of
  \<open>C, Gb\<close> does not report valid, it raises from \<^verbatim>\<open>list.index\<close>, because the root
  \<open>Gb\<close> is spelled with a flat and the alphabet holds the sharp names only. The same
  pitch spelled \<open>F#\<close> has distance 6 from \<open>C\<close> and is reported valid.
\<close>

theorem voice_leading_C_Gb_C6:
  "parse_chord ''C'' = Inr (mk_chord ''C'' MAJOR)
   \<and> parse_chord ''Gb'' = Inr (mk_chord ''Gb'' MAJOR)
   \<and> validate_voice_leading [''C'', ''Gb''] = Inl (NotInList ''Gb'')
   \<and> parse_chord ''F#'' = Inr (mk_chord ''F#'' MAJOR)
   \<and> raw_root_distance ''C'' ''F#'' = Some 6
   \<and> validate_voice_leading [''C'', ''F#'']
       = Inr \<lparr> is_valid = True, issues = [], suggestions = [] \<rparr>"
  by (simp only: parse_C_major parse_Gflat validate_C_Gflat parse_Fsharp distance_C_Fsharp
      validate_C_Fsharp simp_thms)

text \<open>
  On roots of the chromatic alphabet the rule is as specified: for every progression whose
  symbols parse with roots in the alphabet, the check returns a report; an issue is recorded
  for exactly the adjacent pairs whose raw index distance exceeds 6, in order, with one
  suggestion each, and the report is valid iff no pair is flagged. A distance of exactly 6
  is not flagged.
\<close>

lemma voice_leading_in_alphabet:
  "((\<forall>s \<in> set progression. symbol_root_index s \<noteq> None) \<longrightarrow>
      validate_voice_leading progression =
        Inr \<lparr> is_valid = (\<forall>p \<in> set (zip progression (tl progression)). \<not> root_motion_flagged p),
              issues = map (\<lambda>(a, b). issue_message a b)
                         (filter root_motion_flagged (zip progression (tl progression))),
              suggestions = replicate
                         (length (filter root_motion_flagged (zip progression (tl progression))))
                         suggestion_message \<rparr>)
   \<and> (raw_root_distance a b = Some d \<longrightarrow> (root_motion_flagged (a, b) \<longleftrightarrow> d > 6))
   \<and> raw_root_distance ''C'' ''F#'' = Some 6
   \<and> validate_voice_leading [''C'', ''F#'']
       = Inr \<lparr> is_valid = True, issues = [], suggestions = [] \<rparr>"
proof -
  have "validate_voice_leading progression =
        Inr \<lparr> is_valid = (\<forall>p \<in> set (zip progression (tl progression)). \<not> root_motion_flagged p),
              issues = map (\<lambda>(a, b). issue_message a b)
                         (filter root_motion_flagged (zip progression (tl progression))),
              suggestions = replicate
                         (length (filter root_motion_flagged (zip progression (tl progression))))
                         suggestion_message \<rparr>"
    if "\<forall>s \<in> set progression. symbol_root_index s \<noteq> None"
    using voice_leading_loop_ok [OF that, of 0 "[]" "[]"]
    by (simp add: validate_voice_leading_def drop_Suc filter_empty_conv)
  moreover have "raw_root_distance a b = Some d \<longrightarrow> (root_motion_flagged (a, b) \<longleftrightarrow> d > 6)"
    by (simp add: root_motion_flagged_def)
  ultimately show ?thesis
    using distance_C_Fsharp validate_C_Fsharp by simp
qed

lemma voice_leading_in_alphabet_instance:
  "symbol_root_index ''C'' = Some 0 \<and> symbol_root_index ''G#'' = Some 8
   \<and> symbol_root_index ''Am'' = Some 9
   \<and> raw_root_distance ''C'' ''G#'' = Some 8
   \<and> root_motion_flagged (''C'', ''G#'')
   \<and> validate_voice_leading [''C'', ''G#'', ''Am''] =
       Inr \<lparr> is_valid = False, issues = [issue_message ''C'' ''G#''],
             suggestions = [suggestion_message] \<rparr>"
proof -
  have ok: "\<forall>s \<in> set [''C'', ''G#'', ''Am'']. symbol_root_index s \<noteq> None"
    by (simp add: symbol_root_index_examples)
  have d: "raw_root_distance ''C'' ''G#'' = Some 8" "raw_root_distance ''G#'' ''Am'' = Some 1"
    by (simp_all add: raw_root_distance_def symbol_root_index_examples)
  then have f: "root_motion_flagged (''C'', ''G#'')" "\<not> root_motion_flagged (''G#'', ''Am'')"
    by (simp_all add: root_motion_flagged_def)
  from voice_leading_in_alphabet [where progression = "[''C'', ''G#'', ''Am'']" and a = "''C''"
      and b = "''G#''" and d = 8] ok d f symbol_root_index_examples
  show ?thesis by simp
qed

section \<open>Errors of the progression analyzer\<close>

lemma get_roman_numeral_Inr_iff:
  "(\<exists>rn. get_roman_numeral c key = Inr rn) \<longleftrightarrow>
     key \<in> set chromatic_notes \<and> root c \<in> set chromatic_notes"
  using index_of_Inr_iff [of chromatic_notes key] index_of_Inr_iff [of chromatic_notes "root c"]
  by (auto simp: get_roman_numeral_def Let_def split: sum.splits)

lemma get_roman_numeral_Inl:
  assumes "get_roman_numeral c key = Inl e"
  shows "\<exists>v. e = NotInList v"
proof (cases "index_of chromatic_notes key")
  case (Inl e1)
  then have "e1 = NotInList key" by (simp add: index_of_Inl)
  moreover from assms Inl have "e = e1" by (simp add: get_roman_numeral_def)
  ultimately show ?thesis by blast
next
  case k: (Inr ki)
  show ?thesis
  proof (cases "index_of chromatic_notes (root c)")
    case (Inl e2)
    then have "e2 = NotInList (root c)" by (simp add: index_of_Inl)
    moreover from assms k Inl have "e = e2" by (simp add: get_roman_numeral_def)
    ultimately show ?thesis by blast
  next
    case (Inr ci)
    with assms k show ?thesis by (simp add: get_roman_numeral_def Let_def)
  qed
qed

lemma analyze_loop_parse_fail:
  "parse_chord s = Inl e \<Longrightarrow> analyze_loop (s # syms) key acc = Inl e"
  by simp

lemma analyze_loop_index_fail:
  "parse_chord s = Inr c \<Longrightarrow> get_roman_numeral c key = Inl e \<Longrightarrow>
     analyze_loop (s # syms) key acc = Inl e"
  by simp

lemma analyze_loop_step:
  assumes "parse_chord s = Inr c" "get_roman_numeral c key = Inr rn"
  obtains entry where "entry_chord_symbol entry = s"
    "analyze_loop (s # syms) key acc = analyze_loop syms key (acc @ [entry])"
proof -
  let ?chord = "c\<lparr> roman_numeral := Some rn, func := Some (determine_function rn) \<rparr>"
  let ?entry = "\<lparr> entry_chord_symbol = s, entry_chord = ?chord, entry_roman_numeral = rn,
      entry_function = function_value (determine_function rn),
      tensions_available = get_available_tensions ?chord key,
      scales_recommended = recommend_scales ?chord key \<rparr>"
  from assms have "analyze_loop (s # syms) key acc = analyze_loop syms key (acc @ [?entry])"
    by (simp add: Let_def)
  moreover have "entry_chord_symbol ?entry = s" by simp
  ultimately show thesis by (rule that [rotated])
qed

lemma analyze_loop_Inr:
  "analyze_loop syms key acc = Inr es \<Longrightarrow>
     \<exists>new. es = acc @ new \<and> map entry_chord_symbol new = syms"
proof (induction syms arbitrary: acc)
  case Nil
  then show ?case by simp
next
  case (Cons s syms)
  obtain c where c: "parse_chord s = Inr c"
  proof (cases "parse_chord s")
    case (Inl e)
    from analyze_loop_parse_fail [OF this, of syms key acc] Cons.prems show ?thesis
      by (simp only: sum.distinct)
  next
    case (Inr c)
    then show ?thesis by (rule that)
  qed
  obtain rn where rn: "get_roman_numeral c key = Inr rn"
  proof (cases "get_roman_numeral c key")
    case (Inl e)
    from analyze_loop_index_fail [OF c this, of syms acc] Cons.prems show ?thesis
      by (simp only: sum.distinct)
  next
    case (Inr rn)
    then show ?thesis by (rule that)
  qed
  obtain entry where e: "entry_chord_symbol entry = s"
    and step: "analyze_loop (s # syms) key acc = analyze_loop syms key (acc @ [entry])"
    by (rule analyze_loop_step [OF c rn, of syms acc])
  from step Cons.prems have "analyze_loop syms key (acc @ [entry]) = Inr es" by (simp only:)
  from Cons.IH [OF this] obtain new where new: "es = (acc @ [entry]) @ new"
    "map entry_chord_symbol new = syms"
    by (elim exE conjE)
  show ?case
  proof (intro exI conjI)
    from new(1) show "es = acc @ (entry # new)" by simp
    from new(2) e show "map entry_chord_symbol (entry # new) = s # syms" by simp
  qed
qed

lemma analyze_loop_fails:
  "\<exists>s \<in> set syms. \<exists>e. parse_chord s = Inl e \<Longrightarrow> \<exists>e. analyze_loop syms key acc = Inl e"
proof (induction syms arbitrary: acc)
  case Nil
  then show ?case by simp
next
  case (Cons s syms)
  show ?case
  proof (cases "parse_chord s")
    case (Inl e)
    from analyze_loop_parse_fail [OF this] show ?thesis by (rule exI)
  next
    case (Inr c)
    with Cons.prems have rest: "\<exists>s \<in> set syms. \<exists>e. parse_chord s = Inl e" by auto
    show ?thesis
    proof (cases "get_roman_numeral c key")
      case (Inl e)
      from analyze_loop_index_fail [OF Inr this] show ?thesis by (rule exI)
    next
      case rn: (Inr rn)
      obtain entry where
        "analyze_loop (s # syms) key acc = analyze_loop syms key (acc @ [entry])"
        by (rule analyze_loop_step [OF Inr rn, of syms acc])
      with Cons.IH [OF rest, of "acc @ [entry]"] show ?thesis by (simp only:)
    qed
  qed
qed

lemma analyze_loop_invalid:
  "analyze_loop syms key acc = Inl (InvalidChordSymbol m) \<Longrightarrow>
     m \<in> set syms \<and> parse_chord m = Inl (InvalidChordSymbol m)"
proof (induction syms arbitrary: acc)
  case Nil
  then show ?case by simp
next
  case (Cons s syms)
  show ?case
  proof (cases "parse_chord s")
    case (Inl e)
    then have e: "e = InvalidChordSymbol s" by (simp add: parse_chord_Inl)
    from analyze_loop_parse_fail [OF Inl, of syms key acc] Cons.prems
    have "Inl e = (Inl (InvalidChordSymbol m) :: error + analysis_entry list)" by (simp only:)
    with e have "m = s" by simp
    with e Inl show ?thesis by simp
  next
    case (Inr c)
    show ?thesis
    proof (cases "get_roman_numeral c key")
      case (Inl e)
      from analyze_loop_index_fail [OF Inr Inl, of syms acc] Cons.prems
      have "Inl e = (Inl (InvalidChordSymbol m) :: error + analysis_entry list)" by (simp only:)
      then have "e = InvalidChordSymbol m" by simp
      with get_roman_numeral_Inl [OF Inl] show ?thesis by auto
    next
      case rn: (Inr rn)
      obtain entry where
        "analyze_loop (s # syms) key acc = analyze_loop syms key (acc @ [entry])"
        by (rule analyze_loop_step [OF Inr rn, of syms acc])
      with Cons.prems have "analyze_loop syms key (acc @ [entry]) = Inl (InvalidChordSymbol m)"
        by (simp only:)
      from Cons.IH [OF this] show ?thesis by simp
    qed
  qed
qed

lemma analyze_loop_in_alphabet:
  assumes key: "key \<in> set chromatic_notes"
    and roots: "\<forall>s \<in> set syms. \<forall>c. parse_chord s = Inr c \<longrightarrow> root c \<in> set chromatic_notes"
  shows "(\<exists>m. analyze_loop syms key acc = Inl (InvalidChordSymbol m)) \<or>
         (\<exists>es. analyze_loop syms key acc = Inr es)"
  using roots
proof (induction syms arbitrary: acc)
  case Nil
  then show ?case by simp
next
  case (Cons s syms)
  show ?case
  proof (cases "parse_chord s")
    case (Inl e)
    then have "e = InvalidChordSymbol s" by (simp add: parse_chord_Inl)
    with analyze_loop_parse_fail [OF Inl, of syms key acc]
    have "analyze_loop (s # syms) key acc = Inl (InvalidChordSymbol s)" by (simp only:)
    then show ?thesis by (intro disjI1 exI)
  next
    case (Inr c)
    with Cons.prems have "root c \<in> set chromatic_notes" by simp
    with key get_roman_numeral_Inr_iff [of c key]
    obtain rn where rn: "get_roman_numeral c key = Inr rn" by auto
    from Cons.prems
    have rest: "\<forall>s \<in> set syms. \<forall>c. parse_chord s = Inr c \<longrightarrow> root c \<in> set chromatic_notes"
      by simp
    obtain entry where
      "analyze_loop (s # syms) key acc = analyze_loop syms key (acc @ [entry])"
      by (rule analyze_loop_step [OF Inr rn, of syms acc])
    with Cons.IH [OF rest, of "acc @ [entry]"] show ?thesis by (simp only:)
  qed
qed

lemma parse_Db: "parse_chord ''Db'' = Inr (mk_chord ''Db'' MAJOR)"
  by (simp add: parser_defs string_defs mk_chord_def)

lemma parse_C: "parse_chord ''C'' = Inr (mk_chord ''C'' MAJOR)"
  by (simp add: parser_defs string_defs mk_chord_def)

lemma parse_H7: "parse_chord ''H7'' = Inl (InvalidChordSymbol ''H7'')"
  by (simp add: parser_defs string_defs)

lemma Db_not_chromatic: "''Db'' \<notin> set chromatic_notes"
  by (simp add: chromatic_notes_def)

lemma roman_Db: "get_roman_numeral (mk_chord ''Db'' MAJOR) ''C'' = Inl (NotInList ''Db'')"
  by (simp add: get_roman_numeral_def index_of_def chromatic_notes_def mk_chord_def)

lemma roman_C: "get_roman_numeral (mk_chord ''C'' MAJOR) ''C'' = Inr ''I''"
  by (simp add: resolver_defs string_defs mk_chord_def)

lemma function_I: "determine_function ''I'' = TONIC"
  by (simp add: resolver_defs string_defs)

lemma analyze_Db_H7:
  "analyze_chord_progression [''Db'', ''H7''] ''C'' = Inl (NotInList ''Db'')"
  by (simp add: analyze_chord_progression_def parse_Db roman_Db)

lemma analyze_Db: "analyze_chord_progression [''Db''] ''C'' = Inl (NotInList ''Db'')"
  by (simp add: analyze_chord_progression_def parse_Db roman_Db)

lemma analyze_C_H7:
  "analyze_chord_progression [''C'', ''H7''] ''C'' = Inl (InvalidChordSymbol ''H7'')"
  by (simp add: analyze_chord_progression_def parse_C roman_C parse_H7 Let_def)

lemma analyze_G7:
  "analyze_chord_progression [''G7''] ''C'' =
     Inr [\<lparr> entry_chord_symbol = ''G7'',
             entry_chord = \<lparr> root = ''G'', quality = DOMINANT, extensions = [], bass = None,
                             func = Some DOMINANT_F, roman_numeral = Some ''V'' \<rparr>,
             entry_roman_numeral = ''V'',
             entry_function = ''D'',
             tensions_available = [''9'', ''11'', ''13'', ''b13'', ''#11''],
             scales_recommended = [''mixolydian'', ''altered''] \<rparr>]"
  by (simp add: analyze_chord_progression_def parse_G7 roman_G7 function_V Let_def)
     (simp add: mk_chord_def get_available_tensions_def recommend_scales_def tensions_map_def
        scale_recommendations_def dict_get_def)

lemma strip_Db: "strip ''Db'' = ''Db''"
  by (simp add: string_defs)

lemma grammar_Db: "matches_chord_grammar ''Db''"
proof -
  have "chord_pattern_match ''Db'' = Some (''Db'', [], None)"
    by (simp add: chord_pattern_match_def match_tail_def is_note_letter_def is_accidental_def)
  with chord_pattern_match_grammar [of "''Db''"] show ?thesis by simp
qed

lemma grammar_H7: "\<not> matches_chord_grammar ''H7''"
proof -
  have "chord_pattern_match ''H7'' = None"
    by (simp add: chord_pattern_match_def match_tail_def is_note_letter_def is_accidental_def)
  with chord_pattern_match_grammar [of "''H7''"] show ?thesis by simp
qed

text \<open>
  C5. The analysis is to raise (the error of the parser) if and only if some element of the
  list does not match the chord grammar, and then to return no record. The symbol \<open>Db\<close>
  matches the grammar and parses, yet the analysis of the one-element list \<open>Db\<close> in C
  raises: \<^verbatim>\<open>list.index\<close> does not find the flat root in the sharp-only alphabet. In the
  list \<open>Db, H7\<close> the element \<open>H7\<close> does not match the grammar, and the error that comes
  out is again the one of \<^verbatim>\<open>list.index\<close> on \<open>Db\<close>, not the one of the parser.
\<close>

theorem analyze_flat_root_C5:
  "strip ''Db'' = ''Db''
   \<and> matches_chord_grammar ''Db''
   \<and> parse_chord ''Db'' = Inr (mk_chord ''Db'' MAJOR)
   \<and> analyze_chord_progression [''Db''] ''C'' = Inl (NotInList ''Db'')
   \<and> \<not> matches_chord_grammar ''H7''
   \<and> parse_chord ''H7'' = Inl (InvalidChordSymbol ''H7'')
   \<and> analyze_chord_progression [''Db'', ''H7''] ''C'' = Inl (NotInList ''Db'')"
  by (simp only: strip_Db grammar_Db parse_Db analyze_Db grammar_H7 parse_H7 analyze_Db_H7
      simp_thms)

text \<open>
  Where the key and the roots are in the chromatic alphabet the analysis fails as specified.
  If some element does not parse (its stripped form does not match the grammar) the call
  fails and returns no record. The error of the parser is raised only for an element that
  does not parse; when the key and the roots of all parseable elements are in the alphabet,
  it is raised if and only if some element does not parse. A successful call returns one
  record per symbol, in order.
\<close>

lemma analyze_errors_in_alphabet:
  "((\<exists>s \<in> set syms. \<exists>e. parse_chord s = Inl e) \<longrightarrow>
      (\<exists>e. analyze_chord_progression syms key = Inl e))
   \<and> (analyze_chord_progression syms key = Inl (InvalidChordSymbol m) \<longrightarrow>
        m \<in> set syms \<and> parse_chord m = Inl (InvalidChordSymbol m))
   \<and> (key \<in> set chromatic_notes \<and>
        (\<forall>s \<in> set syms. \<forall>c. parse_chord s = Inr c \<longrightarrow> root c \<in> set chromatic_notes) \<longrightarrow>
        ((\<exists>m. analyze_chord_progression syms key = Inl (InvalidChordSymbol m)) \<longleftrightarrow>
         (\<exists>s \<in> set syms. \<exists>e. parse_chord s = Inl e)))
   \<and> (analyze_chord_progression syms key = Inr es \<longrightarrow> map entry_chord_symbol es = syms)
   \<and> parse_chord ''H7'' = Inl (InvalidChordSymbol ''H7'')"
proof (intro conjI impI)
  assume "\<exists>s \<in> set syms. \<exists>e. parse_chord s = Inl e"
  then show "\<exists>e. analyze_chord_progression syms key = Inl e"
    unfolding analyze_chord_progression_def by (rule analyze_loop_fails)
next
  assume "analyze_chord_progression syms key = Inl (InvalidChordSymbol m)"
  then have "analyze_loop syms key [] = Inl (InvalidChordSymbol m)"
    by (simp only: analyze_chord_progression_def)
  from analyze_loop_invalid [OF this]
  show "m \<in> set syms" and "parse_chord m = Inl (InvalidChordSymbol m)" by simp_all
next
  assume a: "key \<in> set chromatic_notes \<and>
        (\<forall>s \<in> set syms. \<forall>c. parse_chord s = Inr c \<longrightarrow> root c \<in> set chromatic_notes)"
  show "(\<exists>m. analyze_chord_progression syms key = Inl (InvalidChordSymbol m)) \<longleftrightarrow>
         (\<exists>s \<in> set syms. \<exists>e. parse_chord s = Inl e)"
  proof
    assume "\<exists>m. analyze_chord_progression syms key = Inl (InvalidChordSymbol m)"
    then obtain m where "analyze_loop syms key [] = Inl (InvalidChordSymbol m)"
      unfolding analyze_chord_progression_def by (elim exE)
    from analyze_loop_invalid [OF this]
    have "m \<in> set syms" "parse_chord m = Inl (InvalidChordSymbol m)" by simp_all
    then show "\<exists>s \<in> set syms. \<exists>e. parse_chord s = Inl e" by (intro bexI exI)
  next
    assume f: "\<exists>s \<in> set syms. \<exists>e. parse_chord s = Inl e"
    from analyze_loop_fails [OF f, of key "[]"]
    obtain e where e: "analyze_loop syms key [] = Inl e" by (elim exE)
    from a analyze_loop_in_alphabet [of key syms "[]"]
    have "(\<exists>m. analyze_loop syms key [] = Inl (InvalidChordSymbol m)) \<or>
         (\<exists>es. analyze_loop syms key [] = Inr es)"
      by simp
    with e show "\<exists>m. analyze_chord_progression syms key = Inl (InvalidChordSymbol m)"
      by (simp add: analyze_chord_progression_def)
  qed
next
  assume "analyze_chord_progression syms key = Inr es"
  then have "analyze_loop syms key [] = Inr es" by (simp only: analyze_chord_progression_def)
  from analyze_loop_Inr [OF this] show "map entry_chord_symbol es = syms" by simp
next
  show "parse_chord ''H7'' = Inl (InvalidChordSymbol ''H7'')" by (rule parse_H7)
qed

lemma analyze_errors_in_alphabet_instance:
  "''C'' \<in> set chromatic_notes
   \<and> parse_chord ''C'' = Inr (mk_chord ''C'' MAJOR)
   \<and> root (mk_chord ''C'' MAJOR) \<in> set chromatic_notes
   \<and> analyze_chord_progression [''C'', ''H7''] ''C'' = Inl (InvalidChordSymbol ''H7'')
   \<and> ''H7'' \<in> set [''C'', ''H7'']
   \<and> parse_chord ''H7'' = Inl (InvalidChordSymbol ''H7'')
   \<and> (\<exists>es. analyze_chord_progression [''G7''] ''C'' = Inr es \<and>
            map entry_chord_symbol es = [''G7''])"
proof -
  have fail: "\<exists>s \<in> set [''C'', ''H7'']. \<exists>e. parse_chord s = Inl e"
    by (simp add: parse_H7)
  have key: "''C'' \<in> set chromatic_notes" by (simp add: chromatic_notes_def)
  have roots: "\<forall>s \<in> set [''C'', ''H7'']. \<forall>c. parse_chord s = Inr c \<longrightarrow>
                 root c \<in> set chromatic_notes"
    by (simp add: parse_C parse_H7) (simp add: mk_chord_def chromatic_notes_def)
  obtain es where es: "analyze_chord_progression [''G7''] ''C'' = Inr es"
    using analyze_G7 by simp
  from analyze_errors_in_alphabet [where syms = "[''C'', ''H7'']" and key = "''C''" and m = "''H7''"
      and es = "[]"] analyze_C_H7 fail key roots
  have 1: "''H7'' \<in> set [''C'', ''H7''] \<and> parse_chord ''H7'' = Inl (InvalidChordSymbol ''H7'')"
    by simp
  from analyze_errors_in_alphabet [where syms = "[''G7'']" and key = "''C''" and m = "''G7''"
      and es = es] es
  have 2: "map entry_chord_symbol es = [''G7'']" by simp
  have c: "root (mk_chord ''C'' MAJOR) \<in> set chromatic_notes"
    by (simp add: mk_chord_def chromatic_notes_def)
  from key c parse_C analyze_C_H7 1 2 es show ?thesis by simp
qed

section \<open>Names of a parsed chord and totality of the other components\<close>

lemma tritone_total:
  "(\<exists>t. get_tritone_substitution c = Inr t) \<longleftrightarrow> root c \<in> set chromatic_notes"
  using index_of_Inr_iff [of chromatic_notes "root c"]
  by (auto simp: get_tritone_substitution_def Let_def split: sum.splits)

lemma suggest_total:
  "(\<exists>subs. suggest_chord_substitutions c key = Inr subs) \<longleftrightarrow>
     (quality c = DOMINANT \<longrightarrow> root c \<in> set chromatic_notes)"
  using index_of_Inr_iff [of chromatic_notes "root c"]
  by (auto simp: suggest_chord_substitutions_def Let_def split: sum.splits)

lemma secondary_total:
  "root c \<in> set chromatic_notes \<Longrightarrow> \<exists>xs. get_secondary_dominant_options c key = Inr xs"
  using index_of_Inr_iff [of chromatic_notes "root c"]
  by (auto simp: get_secondary_dominant_options_def Let_def split: sum.splits)

lemma chord_substitutions_total:
  assumes "root c \<in> set chromatic_notes"
  shows "\<exists>subs. get_chord_substitutions c key style pos total_chords = Inr subs"
proof -
  from assms obtain t where t: "get_tritone_substitution c = Inr t"
    using tritone_total [of c] by auto
  from assms obtain xs where xs: "get_secondary_dominant_options c key = Inr xs"
    using secondary_total [of c key] by auto
  show ?thesis by (simp add: get_chord_substitutions_def t xs Let_def)
qed

lemma validate_total:
  assumes "\<forall>s \<in> set progression. \<exists>c. parse_chord s = Inr c \<and> root c \<in> set chromatic_notes"
  shows "\<exists>rep. validate_voice_leading progression = Inr rep"
proof -
  from assms have "\<forall>s \<in> set progression. symbol_root_index s \<noteq> None"
    using symbol_root_index_iff by blast
  from voice_leading_loop_ok [OF this, of 0 "[]" "[]"] show ?thesis
    by (simp add: validate_voice_leading_def)
qed

lemma parse_Db7: "parse_chord ''Db7'' = Inr (mk_chord ''Db'' DOMINANT)"
  by (simp add: parser_defs string_defs mk_chord_def)

lemma parse_Csharp: "parse_chord ''C#'' = Inr (mk_chord ''C#'' MAJOR)"
  by (simp add: parser_defs string_defs mk_chord_def)

lemma roman_Csharp: "get_roman_numeral (mk_chord ''C#'' MAJOR) ''C'' = Inr ''bII''"
  by (simp add: resolver_defs string_defs mk_chord_def)

lemma root_Db_not_chromatic: "root (mk_chord ''Db'' MAJOR) \<notin> set chromatic_notes"
  by (simp add: mk_chord_def Db_not_chromatic)

lemma suggest_Db7:
  "suggest_chord_substitutions (mk_chord ''Db'' DOMINANT) ''C'' = Inl (NotInList ''Db'')"
  by (simp add: suggest_chord_substitutions_def index_of_def chromatic_notes_def mk_chord_def)

lemma tritone_Db7: "get_tritone_substitution (mk_chord ''Db'' DOMINANT) = Inl (NotInList ''Db'')"
  by (simp add: get_tritone_substitution_def index_of_def chromatic_notes_def mk_chord_def)

text \<open>
  C4. The root of every parsed chord is to be one of the twelve names of the chromatic
  alphabet, so that the components after the parser always return. The parser accepts
  \<open>Db\<close> and \<open>Db7\<close> and returns the root \<open>Db\<close>, which is not in the alphabet; on these
  chords the function resolver, the substitution advisor of the engine and the tritone
  substitution of the service raise from \<^verbatim>\<open>list.index\<close>. The same pitch spelled
  \<open>C#\<close> is resolved, to the numeral \<open>bII\<close> of the altered degrees.
\<close>

theorem flat_root_resolver_C4:
  "parse_chord ''Db'' = Inr (mk_chord ''Db'' MAJOR)
   \<and> root (mk_chord ''Db'' MAJOR) \<notin> set chromatic_notes
   \<and> get_roman_numeral (mk_chord ''Db'' MAJOR) ''C'' = Inl (NotInList ''Db'')
   \<and> parse_chord ''Db7'' = Inr (mk_chord ''Db'' DOMINANT)
   \<and> suggest_chord_substitutions (mk_chord ''Db'' DOMINANT) ''C'' = Inl (NotInList ''Db'')
   \<and> get_tritone_substitution (mk_chord ''Db'' DOMINANT) = Inl (NotInList ''Db'')
   \<and> parse_chord ''C#'' = Inr (mk_chord ''C#'' MAJOR)
   \<and> get_roman_numeral (mk_chord ''C#'' MAJOR) ''C'' = Inr ''bII''"
  by (simp only: parse_Db root_Db_not_chromatic roman_Db parse_Db7 suggest_Db7 tritone_Db7
      parse_Csharp roman_Csharp simp_thms)

text \<open>
  What holds of every parsed chord, and where the components return. The root and the bass
  of a parsed chord are pitch-class names of the grammar, and the chromatic alphabet holds
  twelve of these names. The function resolver returns exactly when the key and the root
  are in the alphabet, the tritone substitution exactly when the root is, the substitution
  advisor of the engine exactly when the chord is not dominant or its root is in the
  alphabet; the substitutions of the service and the voice-leading check return whenever
  the roots are in the alphabet.
\<close>

lemma components_return_in_alphabet:
  "(parse_chord s = Inr c \<longrightarrow>
      is_pitch_class_name (root c) \<and> (\<forall>b. bass c = Some b \<longrightarrow> is_pitch_class_name b))
   \<and> (\<forall>r \<in> set chromatic_notes. is_pitch_class_name r)
   \<and> ((\<exists>rn. get_roman_numeral c key = Inr rn) \<longleftrightarrow>
        key \<in> set chromatic_notes \<and> root c \<in> set chromatic_notes)
   \<and> ((\<exists>subs. suggest_chord_substitutions c key = Inr subs) \<longleftrightarrow>
        (quality c = DOMINANT \<longrightarrow> root c \<in> set chromatic_notes))
   \<and> ((\<exists>t. get_tritone_substitution c = Inr t) \<longleftrightarrow> root c \<in> set chromatic_notes)
   \<and> (root c \<in> set chromatic_notes \<longrightarrow>
        (\<exists>subs. get_chord_substitutions c key style pos total_chords = Inr subs))
   \<and> ((\<forall>s \<in> set progression. \<exists>c. parse_chord s = Inr c \<and> root c \<in> set chromatic_notes) \<longrightarrow>
        (\<exists>rep. validate_voice_leading progression = Inr rep))"
proof (intro conjI)
  show "parse_chord s = Inr c \<longrightarrow>
      is_pitch_class_name (root c) \<and> (\<forall>b. bass c = Some b \<longrightarrow> is_pitch_class_name b)"
    using parse_chord_names [of s c] by (rule impI)
  show "\<forall>r \<in> set chromatic_notes. is_pitch_class_name r"
    by (rule chromatic_notes_names)
  show "(\<exists>rn. get_roman_numeral c key = Inr rn) \<longleftrightarrow>
        key \<in> set chromatic_notes \<and> root c \<in> set chromatic_notes"
    by (rule get_roman_numeral_Inr_iff)
  show "(\<exists>subs. suggest_chord_substitutions c key = Inr subs) \<longleftrightarrow>
        (quality c = DOMINANT \<longrightarrow> root c \<in> set chromatic_notes)"
    by (rule suggest_total)
  show "(\<exists>t. get_tritone_substitution c = Inr t) \<longleftrightarrow> root c \<in> set chromatic_notes"
    by (rule tritone_total)
  show "root c \<in> set chromatic_notes \<longrightarrow>
        (\<exists>subs. get_chord_substitutions c key style pos total_chords = Inr subs)"
    using chord_substitutions_total [of c key style pos total_chords] by (rule impI)
  show "(\<forall>s \<in> set progression. \<exists>c. parse_chord s = Inr c \<and> root c \<in> set chromatic_notes) \<longrightarrow>
        (\<exists>rep. validate_voice_leading progression = Inr rep)"
    using validate_total [of progression] by (rule impI)
qed

lemma components_return_in_alphabet_instance:
  "parse_chord ''C/G'' = Inr (mk_chord ''C'' MAJOR \<lparr> bass := Some ''G'' \<rparr>)
   \<and> is_pitch_class_name ''C'' \<and> is_pitch_class_name ''G''
   \<and> ''C'' \<in> set chromatic_notes
   \<and> (\<exists>c. parse_chord ''C'' = Inr c \<and> root c \<in> set chromatic_notes)
   \<and> (\<exists>c. parse_chord ''G7'' = Inr c \<and> root c \<in> set chromatic_notes)
   \<and> (\<exists>rn. get_roman_numeral (mk_chord ''C'' MAJOR \<lparr> bass := Some ''G'' \<rparr>) ''C'' = Inr rn)
   \<and> (\<exists>subs. get_chord_substitutions (mk_chord ''C'' MAJOR \<lparr> bass := Some ''G'' \<rparr>)
                 ''C'' ''jazz'' 0 2 = Inr subs)
   \<and> (\<exists>rep. validate_voice_leading [''C'', ''G7''] = Inr rep)"
proof -
  let ?c = "mk_chord ''C'' MAJOR \<lparr> bass := Some ''G'' \<rparr>"
  have p: "parse_chord ''C/G'' = Inr ?c"
    by (simp add: parser_defs string_defs mk_chord_def)
  have r: "root ?c = ''C''" "bass ?c = Some ''G''" by (simp_all add: mk_chord_def)
  have key: "''C'' \<in> set chromatic_notes" by (simp add: chromatic_notes_def)
  have prog: "\<forall>s \<in> set [''C'', ''G7'']. \<exists>c. parse_chord s = Inr c \<and> root c \<in> set chromatic_notes"
    by (simp add: parse_C parse_G7) (simp add: mk_chord_def chromatic_notes_def)
  from components_return_in_alphabet [where s = "''C/G''" and c = ?c and key = "''C''"
      and style = "''jazz''" and pos = 0 and total_chords = 2
      and progression = "[''C'', ''G7'']"] p r key prog
  show ?thesis by simp
qed

end
